theory Spec2Isabelle
  imports Complex_Main "HOL-Library.Char_ord" "HOL-Library.List_Lexorder"
begin

section \<open>Python values and exceptions\<close>

text \<open>
  Python strings are modelled as \<^typ>\<open>string\<close>, one \<^typ>\<open>char\<close> per code point, so the
  model covers the strings whose code points are below 256.  In that range the regular
  expression class \<^verbatim>\<open>\d\<close> is exactly \<^verbatim>\<open>0-9\<close>.  Exceptions are values of the
  type \<open>error\<close>; a function that can raise returns \<open>error + 'a\<close>.
\<close>

datatype error =
    FileNotFoundError
  | OSError
  | ValueError
  | IndexError
  | KeyError
  | TypeError
  | AttributeError
  | AssertionError
  | RuntimeError
  | JSONDecodeError
  | SystemExit nat

definition newline :: char where
  "newline = CHR 0x0A"

definition is_digit :: "char \<Rightarrow> bool" where
  "is_digit c = (c \<in> set ''0123456789'')"

definition digit_val :: "char \<Rightarrow> nat" where
  "digit_val c = of_char c - 48"

text \<open>\<^verbatim>\<open>s.split(sep)\<close> for a one-character separator: always at least one piece.\<close>

fun split_on :: "char \<Rightarrow> string \<Rightarrow> string list" where
  "split_on sep [] = [[]]"
| "split_on sep (c # cs) =
     (if c = sep then [] # split_on sep cs
      else (case split_on sep cs of
              [] \<Rightarrow> [[c]]
            | p # ps \<Rightarrow> (c # p) # ps))"

section \<open>utils.py: the folder-name pattern\<close>

text \<open>
  A small backtracking matcher for the constructs \<^verbatim>\<open>FOLDER_PATTERN\<close> uses.
  \<open>rmatch r i s k\<close>: the expression \<open>r\<close> matches at position \<open>i\<close>, where \<open>s\<close> is the
  text from \<open>i\<close> on, and the continuation \<open>k\<close> accepts what follows.  As in Python
  without \<^verbatim>\<open>re.MULTILINE\<close>, \<^verbatim>\<open>^\<close> matches at position 0 only and \<^verbatim>\<open>$\<close> matches at
  the end of the text and also just before a newline that ends the text.
\<close>

datatype regex =
    Bol
  | Eol
  | Digit
  | Lit char
  | OneOf string
  | Seq regex regex
  | Opt regex

fun rmatch :: "regex \<Rightarrow> nat \<Rightarrow> string \<Rightarrow> (nat \<Rightarrow> string \<Rightarrow> bool) \<Rightarrow> bool" where
  "rmatch Bol i s k = (i = 0 \<and> k i s)"
| "rmatch Eol i s k = ((s = [] \<or> s = [newline]) \<and> k i s)"
| "rmatch Digit i s k = (case s of [] \<Rightarrow> False | c # cs \<Rightarrow> is_digit c \<and> k (Suc i) cs)"
| "rmatch (Lit a) i s k = (case s of [] \<Rightarrow> False | c # cs \<Rightarrow> c = a \<and> k (Suc i) cs)"
| "rmatch (OneOf as) i s k = (case s of [] \<Rightarrow> False | c # cs \<Rightarrow> c \<in> set as \<and> k (Suc i) cs)"
| "rmatch (Seq r1 r2) i s k = rmatch r1 i s (\<lambda>j t. rmatch r2 j t k)"
| "rmatch (Opt r) i s k = (rmatch r i s k \<or> k i s)"

text \<open>\<^verbatim>\<open>pattern.match(s)\<close> is not \<^verbatim>\<open>None\<close>: a match starting at position 0.\<close>

definition re_match :: "regex \<Rightarrow> string \<Rightarrow> bool" where
  "re_match r s = rmatch r 0 s (\<lambda>j t. True)"

text \<open>The concatenation of a list of expressions.\<close>

fun seqs :: "regex list \<Rightarrow> regex" where
  "seqs [] = Opt Bol"
| "seqs [r] = r"
| "seqs (r # rs) = Seq r (seqs rs)"

text \<open>\<^verbatim>\<open>FOLDER_PATTERN = re.compile(r"^\d{4}-\d{2}-\d{2}(_[hl])?$")\<close>\<close>

definition FOLDER_PATTERN :: regex where
  "FOLDER_PATTERN =
     seqs [Bol, Digit, Digit, Digit, Digit, Lit (CHR ''-''), Digit, Digit,
           Lit (CHR ''-''), Digit, Digit, Opt (Seq (Lit (CHR ''_'')) (OneOf ''hl'')), Eol]"

definition is_valid_folder_name :: "string \<Rightarrow> bool" where
  "is_valid_folder_name folder_name = re_match FOLDER_PATTERN folder_name"

text \<open>
  The naming convention in the words of the specification: four digits, a dash, two
  digits, a dash, two digits, and then nothing, \<^verbatim>\<open>_h\<close> or \<^verbatim>\<open>_l\<close>.
\<close>

definition date_form :: "string \<Rightarrow> bool" where
  "date_form t =
     (length t = 10 \<and> list_all is_digit (take 4 t) \<and> t ! 4 = CHR ''-'' \<and>
      list_all is_digit (take 2 (drop 5 t)) \<and> t ! 7 = CHR ''-'' \<and>
      list_all is_digit (drop 8 t))"

definition spec_folder_name :: "string \<Rightarrow> bool" where
  "spec_folder_name s =
     (date_form (take 10 s) \<and> (drop 10 s = [] \<or> drop 10 s = ''_h'' \<or> drop 10 s = ''_l''))"

section \<open>utils.py: parsing folder names\<close>

definition VALID_YEAR_MIN :: nat where
  "VALID_YEAR_MIN = 2022"

definition VALID_YEAR_MAX :: nat where
  "VALID_YEAR_MAX = 2025"

text \<open>
  \<^verbatim>\<open>date_str, q = folder_name.split("_")\<close> raises \<^verbatim>\<open>ValueError\<close> unless the split has
  exactly two pieces.
\<close>

definition parse_folder_name :: "string \<Rightarrow> error + (string \<times> string)" where
  "parse_folder_name folder_name =
     (if CHR ''_'' \<in> set folder_name then
        (case split_on (CHR ''_'') folder_name of
           [date_str, q] \<Rightarrow> Inr (date_str, q)
         | _ \<Rightarrow> Inl ValueError)
      else Inr (folder_name, ''u''))"

definition extract_date :: "string \<Rightarrow> string" where
  "extract_date folder_name =
     (case split_on (CHR ''_'') folder_name of [] \<Rightarrow> [] | p # ps \<Rightarrow> p)"

definition extract_quality :: "string \<Rightarrow> string" where
  "extract_quality folder_name =
     (if CHR ''_'' \<in> set folder_name then
        (case split_on (CHR ''_'') folder_name of p # q # ps \<Rightarrow> q | _ \<Rightarrow> [])
      else ''u'')"

section \<open>utils.py: date validation\<close>

text \<open>
  Python's white space among the code points below 256 (\<^verbatim>\<open>str.isspace\<close>, used by
  \<^verbatim>\<open>str.strip\<close>, \<^verbatim>\<open>str.split\<close> and \<^verbatim>\<open>int\<close>).
\<close>

definition is_space :: "char \<Rightarrow> bool" where
  "is_space c =
     (of_char c \<in> {9, 10, 11, 12, 13, 28, 29, 30, 31, 32, 133, 160 :: nat})"

definition strip :: "string \<Rightarrow> string" where
  "strip s = rev (dropWhile is_space (rev (dropWhile is_space s)))"

text \<open>
  \<^verbatim>\<open>int(s)\<close> in base 10: white space around, an optional sign, decimal digits with
  single underscores between them; anything else raises \<^verbatim>\<open>ValueError\<close>.
\<close>

fun int_digits :: "nat \<Rightarrow> string \<Rightarrow> nat option" where
  "int_digits acc [] = Some acc"
| "int_digits acc [c] = (if is_digit c then Some (10 * acc + digit_val c) else None)"
| "int_digits acc (c # d # cs) =
     (if is_digit c then
        (if d = CHR ''_'' then
           (case cs of [] \<Rightarrow> None
            | e # es \<Rightarrow> if is_digit e then int_digits (10 * acc + digit_val c) cs else None)
         else int_digits (10 * acc + digit_val c) (d # cs))
      else None)"

definition py_int :: "string \<Rightarrow> error + int" where
  "py_int s =
     (let t = strip s;
          neg = (t \<noteq> [] \<and> hd t = CHR ''-'');
          body = (if t \<noteq> [] \<and> (hd t = CHR ''-'' \<or> hd t = CHR ''+'') then tl t else t)
      in if body = [] then Inl ValueError
         else (case int_digits 0 body of
                 None \<Rightarrow> Inl ValueError
               | Some n \<Rightarrow> Inr (if neg then - int n else int n)))"

definition is_valid_year :: "string \<Rightarrow> bool" where
  "is_valid_year date_str =
     (case py_int (take 4 date_str) of
        Inl e \<Rightarrow> False
      | Inr year \<Rightarrow> int VALID_YEAR_MIN \<le> year \<and> year \<le> int VALID_YEAR_MAX)"

text \<open>
  \<^verbatim>\<open>datetime.strptime(date_str, "%Y-%m-%d")\<close>, as CPython's \<^verbatim>\<open>_strptime\<close> does it.  The
  format becomes the regular expression
  \<^verbatim>\<open>(?P<Y>\d\d\d\d)-(?P<m>1[0-2]|0[1-9]|[1-9])-(?P<d>3[01]|[12]\d|0[1-9]|[1-9]| [1-9])\<close>,
  matched at the start of the text with backtracking; the first match is taken, text left
  over after it is an error, and so is a day the month does not have.  Each directive is
  modelled by the list of its possible matches, in the order the alternatives are tried,
  each with the text that follows it.
\<close>

definition year_alts :: "string \<Rightarrow> (nat \<times> string) list" where
  "year_alts s =
     (case s of
        a # b # c # d # rest \<Rightarrow>
          (if is_digit a \<and> is_digit b \<and> is_digit c \<and> is_digit d
           then [(1000 * digit_val a + 100 * digit_val b + 10 * digit_val c + digit_val d, rest)]
           else [])
      | _ \<Rightarrow> [])"

definition month_alts :: "string \<Rightarrow> (nat \<times> string) list" where
  "month_alts s =
     (case s of a # b # rest \<Rightarrow>
        (if a = CHR ''1'' \<and> b \<in> set ''012'' then [(10 + digit_val b, rest)] else []) @
        (if a = CHR ''0'' \<and> b \<in> set ''123456789'' then [(digit_val b, rest)] else [])
      | _ \<Rightarrow> []) @
     (case s of a # rest \<Rightarrow>
        (if a \<in> set ''123456789'' then [(digit_val a, rest)] else [])
      | _ \<Rightarrow> [])"

definition day_alts :: "string \<Rightarrow> (nat \<times> string) list" where
  "day_alts s =
     (case s of a # b # rest \<Rightarrow>
        (if a = CHR ''3'' \<and> b \<in> set ''01'' then [(30 + digit_val b, rest)] else []) @
        (if a \<in> set ''12'' \<and> is_digit b then [(10 * digit_val a + digit_val b, rest)] else []) @
        (if a = CHR ''0'' \<and> b \<in> set ''123456789'' then [(digit_val b, rest)] else [])
      | _ \<Rightarrow> []) @
     (case s of a # rest \<Rightarrow>
        (if a \<in> set ''123456789'' then [(digit_val a, rest)] else [])
      | _ \<Rightarrow> []) @
     (case s of a # b # rest \<Rightarrow>
        (if a = CHR '' '' \<and> b \<in> set ''123456789'' then [(digit_val b, rest)] else [])
      | _ \<Rightarrow> [])"

definition dash :: "string \<Rightarrow> string list" where
  "dash s = (case s of c # rest \<Rightarrow> (if c = CHR ''-'' then [rest] else []) | [] \<Rightarrow> [])"

definition ymd_matches :: "string \<Rightarrow> ((nat \<times> nat \<times> nat) \<times> string) list" where
  "ymd_matches s =
     concat (map (\<lambda>(y, r1).
       concat (map (\<lambda>r2.
         concat (map (\<lambda>(m, r3).
           concat (map (\<lambda>r4.
             map (\<lambda>(d, r5). ((y, m, d), r5)) (day_alts r4))
           (dash r3)))
         (month_alts r2)))
       (dash r1)))
     (year_alts s))"

definition is_leap :: "nat \<Rightarrow> bool" where
  "is_leap y = (y mod 4 = 0 \<and> (y mod 100 \<noteq> 0 \<or> y mod 400 = 0))"

definition days_in_month :: "nat \<Rightarrow> nat \<Rightarrow> nat" where
  "days_in_month y m =
     (if m = 2 then (if is_leap y then 29 else 28)
      else if m \<in> {4, 6, 9, 11} then 30
      else 31)"

definition strptime_ymd :: "string \<Rightarrow> error + (nat \<times> nat \<times> nat)" where
  "strptime_ymd date_str =
     (case ymd_matches date_str of
        [] \<Rightarrow> Inl ValueError
      | ((y, m, d), rest) # others \<Rightarrow>
          if rest \<noteq> [] then Inl ValueError
          else if y < 1 \<or> m < 1 \<or> 12 < m \<or> d < 1 \<or> days_in_month y m < d then Inl ValueError
          else Inr (y, m, d))"

definition is_valid_date :: "string \<Rightarrow> bool" where
  "is_valid_date date_str =
     (case strptime_ymd date_str of
        Inl e \<Rightarrow> False
      | Inr (y, m, d) \<Rightarrow> VALID_YEAR_MIN \<le> y \<and> y \<le> VALID_YEAR_MAX)"

text \<open>
  A real calendar date in the words of the specification: the text has the form
  \<^verbatim>\<open>YYYY-MM-DD\<close>, the month is 1 to 12 and the day exists in that month of that year.
\<close>

definition num2 :: "char \<Rightarrow> char \<Rightarrow> nat" where
  "num2 a b = 10 * digit_val a + digit_val b"

definition year_of :: "string \<Rightarrow> nat" where
  "year_of t = 100 * num2 (t ! 0) (t ! 1) + num2 (t ! 2) (t ! 3)"

definition month_of :: "string \<Rightarrow> nat" where
  "month_of t = num2 (t ! 5) (t ! 6)"

definition day_of :: "string \<Rightarrow> nat" where
  "day_of t = num2 (t ! 8) (t ! 9)"

definition real_calendar_date :: "string \<Rightarrow> bool" where
  "real_calendar_date t =
     (date_form t \<and> 1 \<le> year_of t \<and> 1 \<le> month_of t \<and> month_of t \<le> 12 \<and>
      1 \<le> day_of t \<and> day_of t \<le> days_in_month (year_of t) (month_of t))"

definition year_in_range :: "string \<Rightarrow> bool" where
  "year_in_range t = (VALID_YEAR_MIN \<le> year_of t \<and> year_of t \<le> VALID_YEAR_MAX)"

section \<open>utils.py: the file system and the folder scanner\<close>

text \<open>
  What the scanner reads of the file system: a path is missing (\<open>None\<close>), a file with
  its size (no size when \<^verbatim>\<open>os.path.getsize\<close> raises \<^verbatim>\<open>OSError\<close>), a directory with
  its entries (no entries when it cannot be listed), or something that is neither.
\<close>

datatype node =
    File "nat option"
  | Dir "(string \<times> node) list option"
  | Other

definition listdir :: "node option \<Rightarrow> error + string list" where
  "listdir p =
     (case p of
        None \<Rightarrow> Inl FileNotFoundError
      | Some (Dir (Some entries)) \<Rightarrow> Inr (map fst entries)
      | Some n \<Rightarrow> Inl OSError)"

definition child :: "node option \<Rightarrow> string \<Rightarrow> node option" where
  "child p name =
     (case p of Some (Dir (Some entries)) \<Rightarrow> map_of entries name | _ \<Rightarrow> None)"

definition isdir :: "node option \<Rightarrow> bool" where
  "isdir p = (case p of Some (Dir es) \<Rightarrow> True | _ \<Rightarrow> False)"

definition isfile :: "node option \<Rightarrow> bool" where
  "isfile p = (case p of Some (File sz) \<Rightarrow> True | _ \<Rightarrow> False)"

definition getsize :: "node option \<Rightarrow> error + nat" where
  "getsize p = (case p of Some (File (Some sz)) \<Rightarrow> Inr sz | _ \<Rightarrow> Inl OSError)"

definition list_candidate_folders :: "node option \<Rightarrow> error + string list" where
  "list_candidate_folders root_path =
     (case listdir root_path of
        Inl FileNotFoundError \<Rightarrow> Inr []
      | Inl e \<Rightarrow> Inl e
      | Inr entries \<Rightarrow>
          Inr (sort (filter (\<lambda>d. is_valid_folder_name d \<and> isdir (child root_path d)) entries)))"

definition list_valid_folders :: "node option \<Rightarrow> error + string list" where
  "list_valid_folders root_path =
     (case list_candidate_folders root_path of
        Inl e \<Rightarrow> Inl e
      | Inr candidates \<Rightarrow> Inr (sort (filter (\<lambda>d. is_valid_year (extract_date d)) candidates)))"

definition list_invalid_year_folders :: "node option \<Rightarrow> error + string list" where
  "list_invalid_year_folders root_path =
     (case list_candidate_folders root_path of
        Inl e \<Rightarrow> Inl e
      | Inr candidates \<Rightarrow> Inr (sort (filter (\<lambda>d. \<not> is_valid_year (extract_date d)) candidates)))"

fun folder_stats_loop :: "node option \<Rightarrow> string list \<Rightarrow> nat \<times> nat \<Rightarrow> nat \<times> nat" where
  "folder_stats_loop folder_path [] (file_count, total_size) = (file_count, total_size)"
| "folder_stats_loop folder_path (f # fs) (file_count, total_size) =
     (let fp = child folder_path f in
      if isfile fp then
        folder_stats_loop folder_path fs
          (file_count + 1,
           (case getsize fp of Inl e \<Rightarrow> total_size | Inr sz \<Rightarrow> total_size + sz))
      else folder_stats_loop folder_path fs (file_count, total_size))"

definition compute_folder_stats :: "node option \<Rightarrow> nat \<times> nat" where
  "compute_folder_stats folder_path =
     (case listdir folder_path of
        Inl e \<Rightarrow> (0, 0)
      | Inr files \<Rightarrow> folder_stats_loop folder_path files (0, 0))"

record valid_record =
  vr_date :: string
  vr_modality :: string
  vr_quality :: string
  vr_file_count :: nat
  vr_total_size :: nat

record invalid_record =
  ir_folder_name :: string
  ir_parsed_date :: string
  ir_modality :: string
  ir_quality :: string
  ir_file_count :: nat
  ir_total_size :: nat
  ir_reason :: string

fun scan_loop ::
  "node option \<Rightarrow> string \<Rightarrow> string list \<Rightarrow> valid_record list \<times> invalid_record list \<Rightarrow>
   error + (valid_record list \<times> invalid_record list)" where
  "scan_loop root_path modality [] (valid_records, invalid_records) =
     Inr (valid_records, invalid_records)"
| "scan_loop root_path modality (folder # rest) (valid_records, invalid_records) =
     (let folder_path = child root_path folder in
      case parse_folder_name folder of
        Inl e \<Rightarrow> Inl e
      | Inr (date_str, quality) \<Rightarrow>
          (case compute_folder_stats folder_path of
             (file_count, total_size) \<Rightarrow>
               if is_valid_date date_str then
                 scan_loop root_path modality rest
                   (valid_records @
                      [\<lparr>vr_date = date_str, vr_modality = modality, vr_quality = quality,
                        vr_file_count = file_count, vr_total_size = total_size\<rparr>],
                    invalid_records)
               else
                 scan_loop root_path modality rest
                   (valid_records,
                    invalid_records @
                      [\<lparr>ir_folder_name = folder, ir_parsed_date = date_str,
                        ir_modality = modality, ir_quality = quality,
                        ir_file_count = file_count, ir_total_size = total_size,
                        ir_reason = ''invalid_year_or_bad_date''\<rparr>])))"

definition scan_modality_root ::
  "node option \<Rightarrow> string \<Rightarrow> error + (valid_record list \<times> invalid_record list)" where
  "scan_modality_root root_path modality =
     (case list_candidate_folders root_path of
        Inl e \<Rightarrow> Inl e
      | Inr candidates \<Rightarrow> scan_loop root_path modality candidates ([], []))"

text \<open>
  In the words of the specification: the date portion of a folder name is its first ten
  characters, its quality tag is the letter of its suffix, \<^verbatim>\<open>u\<close> when it has none, and
  a folder is semantically valid when its date portion is a real calendar date whose
  year lies in the configured range.
\<close>

definition date_portion :: "string \<Rightarrow> string" where
  "date_portion folder = take 10 folder"

definition quality_tag :: "string \<Rightarrow> string" where
  "quality_tag folder =
     (if drop 10 folder = ''_h'' then ''h'' else if drop 10 folder = ''_l'' then ''l'' else ''u'')"

definition semantically_valid :: "string \<Rightarrow> bool" where
  "semantically_valid folder =
     (real_calendar_date (date_portion folder) \<and> year_in_range (date_portion folder))"

text \<open>
  The record a folder of the convention is to get in each of the two lists, with the
  file count and size the scanner computes.
\<close>

definition valid_record_of :: "node option \<Rightarrow> string \<Rightarrow> string \<Rightarrow> valid_record" where
  "valid_record_of root_path modality folder =
     (case compute_folder_stats (child root_path folder) of
        (file_count, total_size) \<Rightarrow>
          \<lparr>vr_date = date_portion folder, vr_modality = modality,
           vr_quality = quality_tag folder,
           vr_file_count = file_count, vr_total_size = total_size\<rparr>)"

definition invalid_record_of :: "node option \<Rightarrow> string \<Rightarrow> string \<Rightarrow> invalid_record" where
  "invalid_record_of root_path modality folder =
     (case compute_folder_stats (child root_path folder) of
        (file_count, total_size) \<Rightarrow>
          \<lparr>ir_folder_name = folder, ir_parsed_date = date_portion folder,
           ir_modality = modality, ir_quality = quality_tag folder,
           ir_file_count = file_count, ir_total_size = total_size,
           ir_reason = ''invalid_year_or_bad_date''\<rparr>)"

section \<open>pandas reductions used by the daily aggregators\<close>

text \<open>
  A cell of a numeric column is \<open>None\<close> when it is missing (NaN, NaT or an empty CSV
  field).  Numbers are real numbers: the rounding of floating-point arithmetic is not
  modelled.  A time stamp is a number of nanoseconds since the epoch.
\<close>

fun dropna :: "'a option list \<Rightarrow> 'a list" where
  "dropna [] = []"
| "dropna (None # xs) = dropna xs"
| "dropna (Some x # xs) = x # dropna xs"

text \<open>\<^verbatim>\<open>"count"\<close>: the number of cells that are not missing.\<close>

definition count :: "'a option list \<Rightarrow> nat" where
  "count col = length (dropna col)"

text \<open>\<^verbatim>\<open>"mean"\<close>: the mean of the cells that are not missing, missing when there are none.\<close>

definition mean :: "real option list \<Rightarrow> real option" where
  "mean col =
     (let v = dropna col in
      if v = [] then None else Some (sum_list v / real (length v)))"

text \<open>\<^verbatim>\<open>x.quantile(q)\<close>: linear interpolation between the order statistics.\<close>

definition quantile :: "real \<Rightarrow> real option list \<Rightarrow> real option" where
  "quantile q col =
     (let v = sort (dropna col); n = length v in
      if n = 0 then None
      else (let h = real (n - 1) * q;
                lo = nat \<lfloor>h\<rfloor>;
                hi = min (lo + 1) (n - 1)
            in Some (v ! lo + (h - real lo) * (v ! hi - v ! lo))))"

text \<open>\<^verbatim>\<open>"std"\<close>: the sample standard deviation, missing for fewer than two values.\<close>

definition std :: "real option list \<Rightarrow> real option" where
  "std col =
     (let v = dropna col; n = length v in
      if n < 2 then None
      else (let m = sum_list v / real n in
            Some (sqrt (sum_list (map (\<lambda>x. (x - m)\<^sup>2) v) / real (n - 1)))))"

text \<open>
  \<^verbatim>\<open>df.groupby(key)\<close>: one group for each key that is not missing, the keys in
  increasing order, the rows of a group in the order of the table.  Rows whose key is
  missing are in no group.
\<close>

definition groupby :: "('r \<Rightarrow> 'k::linorder option) \<Rightarrow> 'r list \<Rightarrow> ('k \<times> 'r list) list" where
  "groupby key df =
     map (\<lambda>k. (k, filter (\<lambda>r. key r = Some k) df)) (sort (remdups (dropna (map key df))))"

section \<open>audio\_quality\_daily.py\<close>

text \<open>
  A row of the per-audio table.  The type of its date is a parameter: a string in the
  CSV file, a time stamp once the column is parsed.  The other cells are as
  \<^verbatim>\<open>read_csv\<close> returns them for the table \<^verbatim>\<open>audio_quality.py\<close> writes: numbers, and a
  path.
\<close>

record 'd audio_row =
  a_date :: "'d option"
  a_relative_path :: "string option"
  a_duration_sec :: "real option"
  a_rms_dbfs :: "real option"
  a_zcr :: "real option"
  a_sample_rate :: "real option"
  a_file_size_bytes :: "real option"

record audio_daily =
  ad_date :: int
  n_audio :: nat
  rms_dbfs_mean :: "real option"
  rms_dbfs_p10 :: "real option"
  rms_dbfs_p90 :: "real option"
  zcr_mean :: "real option"
  zcr_std :: "real option"
  duration_mean :: "real option"
  file_size_mean :: "real option"

text \<open>\<^verbatim>\<open>.dt.normalize()\<close>: the time stamp of midnight of the same day.\<close>

definition normalize :: "int \<Rightarrow> int" where
  "normalize t = t - t mod 86400000000000"

definition audio_agg :: "int \<times> int audio_row list \<Rightarrow> audio_daily" where
  "audio_agg kg =
     (case kg of (k, g) \<Rightarrow>
        \<lparr>ad_date = k,
         n_audio = count (map a_relative_path g),
         rms_dbfs_mean = mean (map a_rms_dbfs g),
         rms_dbfs_p10 = quantile (10 / 100) (map a_rms_dbfs g),
         rms_dbfs_p90 = quantile (90 / 100) (map a_rms_dbfs g),
         zcr_mean = mean (map a_zcr g),
         zcr_std = std (map a_zcr g),
         duration_mean = mean (map a_duration_sec g),
         file_size_mean = mean (map a_file_size_bytes g)\<rparr>)"

text \<open>The expression \<^verbatim>\<open>df.groupby("date").agg(...).reset_index().sort_values("date")\<close>.\<close>

definition audio_daily_agg :: "int audio_row list \<Rightarrow> audio_daily list" where
  "audio_daily_agg df = sort_key ad_date (map audio_agg (groupby a_date df))"

text \<open>
  \<^verbatim>\<open>read_csv(..., parse_dates=["date"])\<close> on the cells of the date column, a cell
  being \<open>None\<close> when it is empty; \<open>to_datetime\<close> stands for the parser of pandas on one
  cell.  When the table has rows and every cell that is not empty parses, the column
  becomes a column of time stamps, missing where the cell is empty.  Otherwise, for a
  table with no rows or with a cell that does not parse, the column is left as it is, a
  column of strings: the result is \<open>None\<close>.
\<close>

definition parse_dates :: "(string \<Rightarrow> int option) \<Rightarrow> string option list \<Rightarrow> int option list option" where
  "parse_dates to_datetime cells =
     (if cells \<noteq> [] \<and>
         list_all (\<lambda>c. case c of None \<Rightarrow> True | Some s \<Rightarrow> to_datetime s \<noteq> None) cells
      then Some (map (\<lambda>c. case c of None \<Rightarrow> None | Some s \<Rightarrow> to_datetime s) cells)
      else None)"

text \<open>The table with its date column replaced.\<close>

definition with_dates :: "'a audio_row list \<Rightarrow> 'b option list \<Rightarrow> 'b audio_row list" where
  "with_dates df dates =
     map (\<lambda>(r, d).
            \<lparr>a_date = d, a_relative_path = a_relative_path r,
             a_duration_sec = a_duration_sec r, a_rms_dbfs = a_rms_dbfs r, a_zcr = a_zcr r,
             a_sample_rate = a_sample_rate r, a_file_size_bytes = a_file_size_bytes r\<rparr>)
         (zip df dates)"

text \<open>
  \<open>main\<close>: the input file (\<open>None\<close> when it does not exist, otherwise its rows) and
  the output file before the run; the result is the exception that ends the run, if
  any, and the output file after it.  On a date column that is not a column of time
  stamps, \<^verbatim>\<open>df["date"].dt\<close> raises \<^verbatim>\<open>AttributeError\<close>.
\<close>

definition audio_quality_daily_main ::
  "(string \<Rightarrow> int option) \<Rightarrow> string audio_row list option \<Rightarrow> audio_daily list option \<Rightarrow>
   error option \<times> audio_daily list option" where
  "audio_quality_daily_main to_datetime INPUT_CSV OUTPUT_CSV =
     (case INPUT_CSV of
        None \<Rightarrow> (Some FileNotFoundError, OUTPUT_CSV)
      | Some csv_rows \<Rightarrow>
          (case parse_dates to_datetime (map a_date csv_rows) of
             None \<Rightarrow> (Some AttributeError, OUTPUT_CSV)
           | Some dates \<Rightarrow>
               (let df = with_dates csv_rows (map (map_option normalize) dates);
                    daily = audio_daily_agg df
                in if sum_list (map n_audio daily) = length df
                   then (None, Some daily)
                   else (Some AssertionError, OUTPUT_CSV))))"

text \<open>The count and the means of a daily row, the columns that are additive over dates.\<close>

definition count_and_means ::
  "audio_daily \<Rightarrow> int \<times> nat \<times> real option \<times> real option \<times> real option \<times> real option" where
  "count_and_means r =
     (ad_date r, n_audio r, rms_dbfs_mean r, zcr_mean r, duration_mean r, file_size_mean r)"

section \<open>image\_quality\_daily.py\<close>

record image_row =
  i_date :: "int option"
  i_file_name :: "string option"
  i_blur_laplacian_var :: "real option"
  i_brightness_mean :: "real option"
  i_contrast_std :: "real option"
  i_file_size_bytes :: "real option"

record image_daily =
  id_date :: int
  n_images :: nat
  blur_mean :: "real option"
  blur_p10 :: "real option"
  brightness_mean :: "real option"
  contrast_mean :: "real option"
  id_file_size_mean :: "real option"

definition image_agg :: "int \<times> image_row list \<Rightarrow> image_daily" where
  "image_agg kg =
     (case kg of (k, g) \<Rightarrow>
        \<lparr>id_date = k,
         n_images = count (map i_file_name g),
         blur_mean = mean (map i_blur_laplacian_var g),
         blur_p10 = quantile (10 / 100) (map i_blur_laplacian_var g),
         brightness_mean = mean (map i_brightness_mean g),
         contrast_mean = mean (map i_contrast_std g),
         id_file_size_mean = mean (map i_file_size_bytes g)\<rparr>)"

definition image_daily_agg :: "image_row list \<Rightarrow> image_daily list" where
  "image_daily_agg df = sort_key id_date (map image_agg (groupby i_date df))"

definition image_quality_daily_main ::
  "image_row list option \<Rightarrow> image_daily list option \<Rightarrow> error option \<times> image_daily list option" where
  "image_quality_daily_main INPUT_CSV OUTPUT_CSV =
     (case INPUT_CSV of
        None \<Rightarrow> (Some FileNotFoundError, OUTPUT_CSV)
      | Some df \<Rightarrow>
          (let daily = image_daily_agg df
           in if sum_list (map n_images daily) = length df
              then (None, Some daily)
              else (Some AssertionError, OUTPUT_CSV)))"

section \<open>join\_audio\_quality\_and\_sensor\_daily.py\<close>

text \<open>
  The two daily tables after \<^verbatim>\<open>pd.to_datetime(..., errors="coerce").dt.date\<close> and
  \<^verbatim>\<open>pd.to_numeric(..., errors="coerce")\<close>: a cell that does not parse is missing.  The
  sensor table has the four columns the script names; the other columns of the quality
  table are carried along unchanged.
\<close>

record quality_row =
  q_date :: "int option"
  q_n_audio :: "real option"
  q_other :: "real option list"

record sensor_row =
  s_date :: "int option"
  s_snd_lvl_mean :: "real option"
  s_dba_mean :: "real option"
  s_dba_p90 :: "real option"
  s_n_events :: "real option"

record joined_row =
  j_date :: "int option"
  j_n_audio :: "real option"
  j_other :: "real option list"
  j_snd_lvl_mean :: "real option"
  j_dba_mean :: "real option"
  j_dba_p90 :: "real option"
  j_n_events :: "real option"
  sensor_missing :: bool
  sensor_present :: bool
  flag_capture_failure_candidate :: bool

text \<open>
  \<^verbatim>\<open>aq.merge(asens, on="date", how="left")\<close>: the rows of the left table in their order,
  each once for every row of the right table with the same date, and once with the
  right columns missing when there is none.
\<close>

definition merge_left :: "quality_row list \<Rightarrow> sensor_row list \<Rightarrow> (quality_row \<times> sensor_row option) list" where
  "merge_left left right =
     concat (map (\<lambda>l.
       (case filter (\<lambda>r. s_date r = q_date l) right of
          [] \<Rightarrow> [(l, None)]
        | m # ms \<Rightarrow> map (\<lambda>r. (l, Some r)) (m # ms))) left)"

definition joined_of :: "quality_row \<times> sensor_row option \<Rightarrow> joined_row" where
  "joined_of lr =
     (case lr of (l, ro) \<Rightarrow>
        (let n_events = (case ro of None \<Rightarrow> None | Some r \<Rightarrow> s_n_events r);
             dba_mean = (case ro of None \<Rightarrow> None | Some r \<Rightarrow> s_dba_mean r)
         in \<lparr>j_date = q_date l,
             j_n_audio = q_n_audio l,
             j_other = q_other l,
             j_snd_lvl_mean = (case ro of None \<Rightarrow> None | Some r \<Rightarrow> s_snd_lvl_mean r),
             j_dba_mean = dba_mean,
             j_dba_p90 = (case ro of None \<Rightarrow> None | Some r \<Rightarrow> s_dba_p90 r),
             j_n_events = n_events,
             sensor_missing = (n_events = None),
             sensor_present = (\<not> (n_events = None)),
             flag_capture_failure_candidate =
               (dba_mean \<noteq> None \<and>
                (case q_n_audio l of None \<Rightarrow> False | Some n \<Rightarrow> n \<le> 2) \<and>
                (case dba_mean of None \<Rightarrow> False | Some d \<Rightarrow> d \<ge> 75))\<rparr>))"

text \<open>The script: each input file is \<open>None\<close> when it does not exist.\<close>

definition join_audio_quality_and_sensor_daily ::
  "quality_row list option \<Rightarrow> sensor_row list option \<Rightarrow> error + joined_row list" where
  "join_audio_quality_and_sensor_daily AUDIO_QUALITY_DAILY AUDIO_SENSOR_DAILY =
     (case AUDIO_QUALITY_DAILY of
        None \<Rightarrow> Inl FileNotFoundError
      | Some aq \<Rightarrow>
          (case AUDIO_SENSOR_DAILY of
             None \<Rightarrow> Inl FileNotFoundError
           | Some asens \<Rightarrow>
               (let bad_aq = length (filter (\<lambda>r. q_date r = None) aq);
                    bad_as = length (filter (\<lambda>r. s_date r = None) asens)
                in if bad_aq \<noteq> 0 then Inl AssertionError
                   else if bad_as \<noteq> 0 then Inl AssertionError
                   else Inr (map joined_of (merge_left aq asens)))))"

section \<open>daily\_join.py: loading a table\<close>

text \<open>
  A CSV file is its header and its rows of cells.  \<open>to_date\<close> stands for
  \<^verbatim>\<open>pd.to_datetime(..., errors="coerce").dt.date\<close> on one cell.
\<close>

type_synonym csv = "string list \<times> string list list"

definition cell :: "string list \<Rightarrow> string \<Rightarrow> string list \<Rightarrow> string" where
  "cell columns name row =
     (case filter (\<lambda>i. columns ! i = name) [0..<length columns] of
        [] \<Rightarrow> []
      | i # js \<Rightarrow> if i < length row then row ! i else [])"

definition load_csv ::
  "(string \<Rightarrow> int option) \<Rightarrow> csv option \<Rightarrow> error + (string list \<times> (int option \<times> string list) list)" where
  "load_csv to_date path =
     (case path of
        None \<Rightarrow> Inl FileNotFoundError
      | Some (columns, rows) \<Rightarrow>
          if ''date'' \<notin> set columns then Inl ValueError
          else Inr (columns, map (\<lambda>row. (to_date (cell columns ''date'' row), row)) rows))"

section \<open>audio\_amplitude\_scan\_sampled.py\<close>

text \<open>
  A floating-point value of numpy is a number, an infinity or NaN; the sign of a zero is
  not modelled.  The arithmetic of numpy on the samples is not modelled either: \<open>rms_op\<close>
  stands for \<^verbatim>\<open>np.sqrt(np.mean(y ** 2))\<close> and \<open>peak_op\<close> for \<^verbatim>\<open>np.max(np.abs(y))\<close>, both
  computed in the precision of the samples, and \<open>round_op\<close> for the rounding of an exact
  quotient to that precision, which may overflow to an infinity.
\<close>

datatype npfloat = Finite real | PosInf | NegInf | NaN

record numpy =
  rms_op :: "npfloat list \<Rightarrow> npfloat"
  peak_op :: "npfloat list \<Rightarrow> npfloat"
  round_op :: "real \<Rightarrow> npfloat"

text \<open>\<^verbatim>\<open>v > 0\<close>: false on NaN.\<close>

definition np_positive :: "npfloat \<Rightarrow> bool" where
  "np_positive v = (case v of Finite x \<Rightarrow> x > 0 | PosInf \<Rightarrow> True | NegInf \<Rightarrow> False | NaN \<Rightarrow> False)"

text \<open>
  \<^verbatim>\<open>a / b\<close> on numpy values.  Dividing by zero gives an infinity or NaN (with a warning),
  not an exception.
\<close>

definition np_divide :: "(real \<Rightarrow> npfloat) \<Rightarrow> npfloat \<Rightarrow> npfloat \<Rightarrow> npfloat" where
  "np_divide rnd a b =
     (case b of
        NaN \<Rightarrow> NaN
      | PosInf \<Rightarrow> (case a of Finite x \<Rightarrow> Finite 0 | _ \<Rightarrow> NaN)
      | NegInf \<Rightarrow> (case a of Finite x \<Rightarrow> Finite 0 | _ \<Rightarrow> NaN)
      | Finite y \<Rightarrow>
          (case a of
             NaN \<Rightarrow> NaN
           | PosInf \<Rightarrow> if y < 0 then NegInf else PosInf
           | NegInf \<Rightarrow> if y < 0 then PosInf else NegInf
           | Finite x \<Rightarrow>
               if y = 0 then (if x = 0 then NaN else if x > 0 then PosInf else NegInf)
               else rnd (x / y)))"

definition MAX_FILES_PER_DAY :: nat where
  "MAX_FILES_PER_DAY = 25"

definition MAX_TOTAL_FILES :: nat where
  "MAX_TOTAL_FILES = 50000"

record amp_row =
  am_file :: string
  am_date :: string
  rms_amplitude :: npfloat
  peak_amplitude :: npfloat
  crest_factor :: npfloat

text \<open>The row appended for a waveform that is not empty.\<close>

definition amplitude_row :: "numpy \<Rightarrow> string \<Rightarrow> string \<Rightarrow> npfloat list \<Rightarrow> amp_row" where
  "amplitude_row np fp_name date_str y =
     (let rms = rms_op np y; peak = peak_op np y in
      \<lparr>am_file = fp_name, am_date = date_str,
       rms_amplitude = rms, peak_amplitude = peak,
       crest_factor = (if np_positive rms then np_divide (round_op np) peak rms else NaN)\<rparr>)"

text \<open>
  The loop over the files of a day.  A file is its name and what \<^verbatim>\<open>librosa.load\<close> does
  on it: an exception or the waveform.  An empty waveform is skipped; the loop stops
  when the cap on the number of rows is reached.
\<close>

fun scan_files ::
  "numpy \<Rightarrow> string \<Rightarrow> (string \<times> (error + npfloat list)) list \<Rightarrow> amp_row list \<Rightarrow> amp_row list" where
  "scan_files np date_str [] rows = rows"
| "scan_files np date_str ((fp_name, loaded) # files) rows =
     (case loaded of
        Inr [] \<Rightarrow> scan_files np date_str files rows
      | Inr y \<Rightarrow>
          (let rows' = rows @ [amplitude_row np fp_name date_str y] in
           if length rows' \<ge> MAX_TOTAL_FILES then rows' else scan_files np date_str files rows')
      | Inl e \<Rightarrow>
          (if length rows \<ge> MAX_TOTAL_FILES then rows else scan_files np date_str files rows))"

text \<open>
  The loop over the day folders; \<open>sample\<close> stands for \<^verbatim>\<open>random.sample\<close>.
\<close>

fun scan_days ::
  "numpy \<Rightarrow>
   ((string \<times> (error + npfloat list)) list \<Rightarrow> nat \<Rightarrow> (string \<times> (error + npfloat list)) list) \<Rightarrow>
   (string \<times> (string \<times> (error + npfloat list)) list) list \<Rightarrow> amp_row list \<Rightarrow> amp_row list" where
  "scan_days np sample [] rows = rows"
| "scan_days np sample ((day_dir, files) # day_dirs) rows =
     (let date_str = extract_date day_dir in
      if files = [] then scan_days np sample day_dirs rows
      else
        (let files' = (if length files > MAX_FILES_PER_DAY then sample files MAX_FILES_PER_DAY
                       else files);
             rows' = scan_files np date_str files' rows
         in if length rows' \<ge> MAX_TOTAL_FILES then rows' else scan_days np sample day_dirs rows'))"

text \<open>
  \<open>main\<close>: the audio root (\<open>None\<close> when it does not exist, otherwise its day folders
  with their audio files) and the output file before the run.  \<open>to_datetime\<close> stands
  for \<^verbatim>\<open>pd.to_datetime(..., format="%Y-%m-%d", errors="coerce")\<close> on one cell.  The
  output holds each row with its parsed date.
\<close>

definition audio_amplitude_scan_sampled_main ::
  "numpy \<Rightarrow>
   ((string \<times> (error + npfloat list)) list \<Rightarrow> nat \<Rightarrow> (string \<times> (error + npfloat list)) list) \<Rightarrow>
   (string \<Rightarrow> int option) \<Rightarrow>
   (string \<times> (string \<times> (error + npfloat list)) list) list option \<Rightarrow>
   (int \<times> amp_row) list option \<Rightarrow> error option \<times> (int \<times> amp_row) list option" where
  "audio_amplitude_scan_sampled_main np sample to_datetime AUDIO_ROOT OUTPUT_CSV =
     (case AUDIO_ROOT of
        None \<Rightarrow> (Some FileNotFoundError, OUTPUT_CSV)
      | Some dirs \<Rightarrow>
          (let day_dirs = sort_key fst dirs;
               rows = scan_days np sample day_dirs []
           in if rows = [] then (Some RuntimeError, OUTPUT_CSV)
              else (None,
                    Some (concat (map (\<lambda>r. case to_datetime (am_date r) of
                                              None \<Rightarrow> []
                                            | Some d \<Rightarrow> [(d, r)]) rows)))))"

section \<open>audio\_quality.py\<close>

record audio_file_row =
  f_date :: string
  f_relative_path :: "string list"
  f_duration_sec :: real
  f_rms_dbfs :: real
  f_zcr :: real
  f_sample_rate :: int
  f_file_size_bytes :: nat

text \<open>A path is the list of its components below the audio root.\<close>

definition infer_date_from_path :: "string list \<Rightarrow> error + string" where
  "infer_date_from_path rel =
     (case rel of [] \<Rightarrow> Inl IndexError | top_part # parts \<Rightarrow> Inr (take 10 top_part))"

text \<open>
  \<open>worker\<close>: \<open>extract\<close> stands for \<^verbatim>\<open>extract_audio_metrics\<close>, which decodes the file
  with librosa; every exception becomes an error result.
\<close>

definition worker ::
  "(string list \<Rightarrow> error + (real \<times> real \<times> real \<times> int \<times> nat)) \<Rightarrow> string list \<Rightarrow>
   (error \<times> string list) + audio_file_row" where
  "worker extract path =
     (case infer_date_from_path path of
        Inl e \<Rightarrow> Inl (e, path)
      | Inr date \<Rightarrow>
          (case extract path of
             Inl e \<Rightarrow> Inl (e, path)
           | Inr (duration, rms_dbfs, zcr, sr, st_size) \<Rightarrow>
               Inr \<lparr>f_date = date, f_relative_path = path, f_duration_sec = duration,
                    f_rms_dbfs = rms_dbfs, f_zcr = zcr, f_sample_rate = sr,
                    f_file_size_bytes = st_size\<rparr>))"

text \<open>
  \<^verbatim>\<open>p.suffix.lower()\<close>: the part of the last component from its last dot, when that dot
  is neither its first nor its last character; lower case matters only for the letters
  A to Z here, since the extensions are ASCII.
\<close>

definition lower_char :: "char \<Rightarrow> char" where
  "lower_char c =
     (if 65 \<le> (of_char c :: nat) \<and> (of_char c :: nat) \<le> 90 then char_of (of_char c + 32 :: nat) else c)"

definition suffix_of :: "string \<Rightarrow> string" where
  "suffix_of name =
     (let after = rev (takeWhile (\<lambda>c. c \<noteq> CHR ''.'') (rev name)) in
      if CHR ''.'' \<in> set name \<and> after \<noteq> [] \<and> length after + 1 < length name
      then CHR ''.'' # after else [])"

definition AUDIO_EXTENSIONS :: "string list" where
  "AUDIO_EXTENSIONS = [''.mp3'', ''.wav'', ''.flac'']"

text \<open>
  \<open>main\<close>: the \<^verbatim>\<open>--calendar\<close> argument (\<open>None\<close> when it is empty, so that no
  calendar is read; otherwise the calendar file, \<open>None\<close> when it does not exist, or
  the cells of its date column), the paths below the audio root, and the output file
  before the run.  The dates of the calendar are parsed as \<open>parse_dates\<close> says, and
  \<^verbatim>\<open>cal["date"].dt\<close> raises \<^verbatim>\<open>AttributeError\<close> on a column that is not a column of time
  stamps; \<open>strftime\<close> stands for \<^verbatim>\<open>.dt.strftime("%Y-%m-%d")\<close> on one time stamp, and a
  missing date equals no string.  The results of the pool are taken in the order of
  the files.  The table is written whatever its number of rows.
\<close>

definition audio_quality_main ::
  "(string list \<Rightarrow> error + (real \<times> real \<times> real \<times> int \<times> nat)) \<Rightarrow>
   (string \<Rightarrow> int option) \<Rightarrow> (int \<Rightarrow> string) \<Rightarrow>
   string option list option option \<Rightarrow> string list list \<Rightarrow> audio_file_row list option \<Rightarrow>
   error option \<times> audio_file_row list option" where
  "audio_quality_main extract to_datetime strftime args_calendar paths output =
     (case args_calendar of
        Some None \<Rightarrow> (Some FileNotFoundError, output)
      | _ \<Rightarrow>
          (case (case args_calendar of
                   Some (Some cells) \<Rightarrow>
                     (case parse_dates to_datetime cells of
                        None \<Rightarrow> Inl AttributeError
                      | Some dates \<Rightarrow> Inr (Some (map strftime (dropna dates))))
                 | _ \<Rightarrow> Inr None) of
             Inl e \<Rightarrow> (Some e, output)
           | Inr calendar_dates \<Rightarrow>
               (let all_files =
                      filter (\<lambda>p. p \<noteq> [] \<and>
                                   map lower_char (suffix_of (last p)) \<in> set AUDIO_EXTENSIONS \<and>
                                   (case calendar_dates of
                                      None \<Rightarrow> True
                                    | Some cal \<Rightarrow>
                                        (case infer_date_from_path p of
                                           Inl e \<Rightarrow> False
                                         | Inr d \<Rightarrow> d \<in> set cal))) paths;
                    results = map (worker extract) all_files;
                    rows = concat (map (\<lambda>res. case res of Inl e \<Rightarrow> [] | Inr row \<Rightarrow> [row]) results)
                in (None, Some rows))))"

section \<open>parse\_logs\_to\_csv.py: JSON values\<close>

text \<open>
  What \<^verbatim>\<open>json.loads\<close> returns.  An object is the list of its members; as in a Python
  dictionary, its keys are taken to be distinct.
\<close>

datatype json =
    JNull
  | JBool bool
  | JInt int
  | JFloat real
  | JStr string
  | JArr "json list"
  | JObj "(string \<times> json) list"

text \<open>\<^verbatim>\<open>rec.get(key)\<close>: \<^verbatim>\<open>None\<close> when the key is absent.\<close>

definition dict_get :: "(string \<times> json) list \<Rightarrow> string \<Rightarrow> json" where
  "dict_get rec key = (case map_of rec key of None \<Rightarrow> JNull | Some v \<Rightarrow> v)"

text \<open>Python's truth value of a JSON value.\<close>

fun truthy :: "json \<Rightarrow> bool" where
  "truthy JNull = False"
| "truthy (JBool b) = b"
| "truthy (JInt i) = (i \<noteq> 0)"
| "truthy (JFloat x) = (x \<noteq> 0)"
| "truthy (JStr s) = (s \<noteq> [])"
| "truthy (JArr xs) = (xs \<noteq> [])"
| "truthy (JObj kv) = (kv \<noteq> [])"

text \<open>\<^verbatim>\<open>v or []\<close>\<close>

definition or_empty :: "json \<Rightarrow> json" where
  "or_empty v = (if truthy v then v else JArr [])"

text \<open>\<^verbatim>\<open>len(v)\<close> raises \<^verbatim>\<open>TypeError\<close> on a value that has no length.\<close>

fun py_len :: "json \<Rightarrow> error + nat" where
  "py_len (JStr s) = Inr (length s)"
| "py_len (JArr xs) = Inr (length xs)"
| "py_len (JObj kv) = Inr (length kv)"
| "py_len v = Inl TypeError"

text \<open>
  \<^verbatim>\<open>v[i]\<close> for an index that is not negative: an element of a list, a character of a
  string, \<^verbatim>\<open>KeyError\<close> on a dictionary (its keys are strings), \<^verbatim>\<open>TypeError\<close> otherwise.
\<close>

fun py_getitem :: "json \<Rightarrow> nat \<Rightarrow> error + json" where
  "py_getitem (JArr xs) i = (if i < length xs then Inr (xs ! i) else Inl IndexError)"
| "py_getitem (JStr s) i = (if i < length s then Inr (JStr [s ! i]) else Inl IndexError)"
| "py_getitem (JObj kv) i = Inl KeyError"
| "py_getitem v i = Inl TypeError"

text \<open>\<^verbatim>\<open>v[i] if len(v) > i else None\<close>\<close>

definition item_or_none :: "json \<Rightarrow> nat \<Rightarrow> error + json" where
  "item_or_none v i =
     (case py_len v of
        Inl e \<Rightarrow> Inl e
      | Inr n \<Rightarrow> if n > i then py_getitem v i else Inr JNull)"

text \<open>\<^verbatim>\<open>s.split()\<close>: the pieces between runs of white space, none of them empty.\<close>

fun split_ws :: "string \<Rightarrow> string \<Rightarrow> string list" where
  "split_ws cur [] = (if cur = [] then [] else [cur])"
| "split_ws cur (c # cs) =
     (if is_space c then (if cur = [] then split_ws [] cs else cur # split_ws [] cs)
      else split_ws (cur @ [c]) cs)"

definition py_split :: "string \<Rightarrow> string list" where
  "py_split s = split_ws [] s"

section \<open>parse\_logs\_to\_csv.py: flattening one record\<close>

record log_record =
  date :: "string option"
  time :: "string option"
  frame_dto :: json
  dto :: json
  img_path :: json
  img_file :: "string option"
  dba :: json
  dba_dto :: json
  intersection_0 :: json
  intersection_1 :: json
  cross_0_0 :: json
  cross_0_1 :: json
  cross_1_0 :: json
  cross_1_1 :: json
  probs :: json
  cls :: json
  point_len :: json
  box_x1 :: json
  box_y1 :: json
  box_x2 :: json
  box_y2 :: json
  tid :: json
  seq_len :: json
  seq_path :: json
  log_file :: string

text \<open>
  \<^verbatim>\<open>date_str, time_str = frame_dto.split()[:2]\<close>, made when \<^verbatim>\<open>frame_dto\<close> is a string
  with a space in it; the assignment raises \<^verbatim>\<open>ValueError\<close> unless there are two pieces.
\<close>

definition frame_date_time :: "json \<Rightarrow> error + (string option \<times> string option)" where
  "frame_date_time frame_dto_v =
     (case frame_dto_v of
        JStr s \<Rightarrow>
          (if CHR '' '' \<in> set s then
             (case take 2 (py_split s) of
                [date_str, time_str] \<Rightarrow> Inr (Some date_str, Some time_str)
              | _ \<Rightarrow> Inl ValueError)
           else Inr (None, None))
      | _ \<Rightarrow> Inr (None, None))"

text \<open>
  \<^verbatim>\<open>date_str = dto.split()[0]\<close>, made when there is no date yet and \<^verbatim>\<open>dto\<close> is a string
  with a space in it; the index raises \<^verbatim>\<open>IndexError\<close> when the split is empty.
\<close>

definition dto_date :: "string option \<Rightarrow> json \<Rightarrow> error + string option" where
  "dto_date date_str dto_v =
     (if date_str = None then
        (case dto_v of
           JStr s \<Rightarrow>
             (if CHR '' '' \<in> set s then
                (case py_split s of [] \<Rightarrow> Inl IndexError | d # ds \<Rightarrow> Inr (Some d))
              else Inr date_str)
         | _ \<Rightarrow> Inr date_str)
      else Inr date_str)"

text \<open>The image path: the file name, and the date from the folder name when there is none yet.\<close>

definition img_fields :: "string option \<Rightarrow> json \<Rightarrow> string option \<times> string option" where
  "img_fields date_str img_path_v =
     (case img_path_v of
        JStr s \<Rightarrow>
          (let parts = split_on (CHR ''/'') s;
               img_file_v = (case rev parts of [] \<Rightarrow> [] | p # ps \<Rightarrow> p);
               folder = (case parts of [] \<Rightarrow> [] | p # ps \<Rightarrow> p)
           in (Some img_file_v,
               if date_str = None \<and> length folder \<ge> 10 then
                 (if folder ! 4 = CHR ''-'' \<and> folder ! 7 = CHR ''-'' then Some (take 10 folder)
                  else date_str)
               else date_str))
      | _ \<Rightarrow> (None, date_str))"

text \<open>
  One row of \<^verbatim>\<open>cross\<close>: its first two elements when \<^verbatim>\<open>cross\<close> is long enough and the row
  is a list, otherwise two missing values.
\<close>

definition cross_row :: "json \<Rightarrow> nat \<Rightarrow> error + (json \<times> json)" where
  "cross_row cross i =
     (case py_len cross of
        Inl e \<Rightarrow> Inl e
      | Inr n \<Rightarrow>
          if n > i then
            (case py_getitem cross i of
               Inl e \<Rightarrow> Inl e
             | Inr (JArr xs) \<Rightarrow>
                 Inr (if length xs > 0 then xs ! 0 else JNull,
                      if length xs > 1 then xs ! 1 else JNull)
             | Inr v \<Rightarrow> Inr (JNull, JNull))
          else Inr (JNull, JNull))"

text \<open>\<^verbatim>\<open>box = rec.get("box") or []\<close>, replaced by the empty list when it is no list.\<close>

definition box_list :: "json \<Rightarrow> json list" where
  "box_list v = (case or_empty v of JArr xs \<Rightarrow> xs | _ \<Rightarrow> [])"

definition nth_or_null :: "json list \<Rightarrow> nat \<Rightarrow> json" where
  "nth_or_null xs i = (if i < length xs then xs ! i else JNull)"

text \<open>
  \<open>flatten_log_record\<close>, in the order of the source, so that the first exception
  raised is the one returned.  A record that is no dictionary has no \<^verbatim>\<open>get\<close>.
\<close>

definition flatten_log_record :: "json \<Rightarrow> string \<Rightarrow> error + log_record" where
  "flatten_log_record rec log_file_v =
     (case rec of
        JObj kv \<Rightarrow>
          (case frame_date_time (dict_get kv ''frame_dto'') of
             Inl e \<Rightarrow> Inl e
           | Inr (date1, time_str) \<Rightarrow>
          (case dto_date date1 (dict_get kv ''dto'') of
             Inl e \<Rightarrow> Inl e
           | Inr date2 \<Rightarrow>
          (case img_fields date2 (dict_get kv ''img'') of
             (img_file_v, date_str) \<Rightarrow>
          (case item_or_none (or_empty (dict_get kv ''intersection'')) 0 of
             Inl e \<Rightarrow> Inl e
           | Inr i0 \<Rightarrow>
          (case item_or_none (or_empty (dict_get kv ''intersection'')) 1 of
             Inl e \<Rightarrow> Inl e
           | Inr i1 \<Rightarrow>
          (case cross_row (or_empty (dict_get kv ''cross'')) 0 of
             Inl e \<Rightarrow> Inl e
           | Inr (c00, c01) \<Rightarrow>
          (case cross_row (or_empty (dict_get kv ''cross'')) 1 of
             Inl e \<Rightarrow> Inl e
           | Inr (c10, c11) \<Rightarrow>
               (let box = box_list (dict_get kv ''box'') in
                Inr \<lparr>date = date_str,
                     time = time_str,
                     frame_dto = dict_get kv ''frame_dto'',
                     dto = dict_get kv ''dto'',
                     img_path = dict_get kv ''img'',
                     img_file = img_file_v,
                     dba = dict_get kv ''dba'',
                     dba_dto = dict_get kv ''dba_dto'',
                     intersection_0 = i0,
                     intersection_1 = i1,
                     cross_0_0 = c00,
                     cross_0_1 = c01,
                     cross_1_0 = c10,
                     cross_1_1 = c11,
                     probs = dict_get kv ''probs'',
                     cls = dict_get kv ''cls'',
                     point_len = dict_get kv ''point_len'',
                     box_x1 = nth_or_null box 0,
                     box_y1 = nth_or_null box 1,
                     box_x2 = nth_or_null box 2,
                     box_y2 = nth_or_null box 3,
                     tid = dict_get kv ''tid'',
                     seq_len = dict_get kv ''seq_len'',
                     seq_path = dict_get kv ''seq_path'',
                     log_file = log_file_v\<rparr>))))))))
      | _ \<Rightarrow> Inl AttributeError)"

text \<open>
  The records on which \<open>flatten_log_record\<close> raises nothing: the time stamps that are
  split have enough pieces, and \<^verbatim>\<open>intersection\<close> and \<^verbatim>\<open>cross\<close> are missing, empty, lists
  or strings.
\<close>

definition sized :: "json \<Rightarrow> bool" where
  "sized v = (case or_empty v of JArr xs \<Rightarrow> True | JStr s \<Rightarrow> True | _ \<Rightarrow> False)"

definition frame_dto_splits :: "json \<Rightarrow> bool" where
  "frame_dto_splits v =
     (case v of JStr s \<Rightarrow> (if CHR '' '' \<in> set s then 2 \<le> length (py_split s) else True) | _ \<Rightarrow> True)"

definition dto_splits :: "json \<Rightarrow> json \<Rightarrow> bool" where
  "dto_splits frame_dto_v dto_v =
     (case frame_dto_v of
        JStr s \<Rightarrow> if CHR '' '' \<in> set s then True
                  else (case dto_v of JStr t \<Rightarrow> (if CHR '' '' \<in> set t then py_split t \<noteq> [] else True) | _ \<Rightarrow> True)
      | _ \<Rightarrow> (case dto_v of JStr t \<Rightarrow> (if CHR '' '' \<in> set t then py_split t \<noteq> [] else True) | _ \<Rightarrow> True))"

definition flattens :: "(string \<times> json) list \<Rightarrow> bool" where
  "flattens kv =
     (frame_dto_splits (dict_get kv ''frame_dto'') \<and>
      dto_splits (dict_get kv ''frame_dto'') (dict_get kv ''dto'') \<and>
      sized (dict_get kv ''intersection'') \<and>
      sized (dict_get kv ''cross''))"

text \<open>The elements of a list, or the characters of a string, or nothing.\<close>

definition elements :: "json \<Rightarrow> json list" where
  "elements v =
     (case or_empty v of JArr xs \<Rightarrow> xs | JStr s \<Rightarrow> map (\<lambda>c. JStr [c]) s | _ \<Rightarrow> [])"

text \<open>The elements of row \<open>i\<close> of \<^verbatim>\<open>cross\<close>, when that row is there and is a list.\<close>

definition row_elements :: "json \<Rightarrow> nat \<Rightarrow> json list" where
  "row_elements v i =
     (case nth_or_null (elements v) i of JArr xs \<Rightarrow> xs | _ \<Rightarrow> [])"

section \<open>parse\_logs\_to\_csv.py: the main loop\<close>

record parse_state =
  total_lines :: nat
  parsed :: nat
  errors :: nat
  rows :: "log_record list"

text \<open>
  The body of the loop for one line, after the check of the cap.  \<open>json_loads\<close> stands
  for \<^verbatim>\<open>json.loads\<close>.  Every exception of parsing or flattening counts as one error.
\<close>

definition process_line ::
  "(string \<Rightarrow> error + json) \<Rightarrow> string \<Rightarrow> string \<Rightarrow> parse_state \<Rightarrow> parse_state" where
  "process_line json_loads lf line st =
     (let st1 = st\<lparr>total_lines := total_lines st + 1\<rparr>;
          line' = strip line
      in if line' = [] then st1
         else (case json_loads line' of
                 Inl e \<Rightarrow> st1\<lparr>errors := errors st1 + 1\<rparr>
               | Inr rec \<Rightarrow>
                   (case flatten_log_record rec lf of
                      Inl e \<Rightarrow> st1\<lparr>errors := errors st1 + 1\<rparr>
                    | Inr row \<Rightarrow> st1\<lparr>rows := rows st1 @ [row], parsed := parsed st1 + 1\<rparr>)))"

text \<open>\<^verbatim>\<open>args.max_lines and total_lines >= args.max_lines\<close>\<close>

definition cap_reached :: "int option \<Rightarrow> parse_state \<Rightarrow> bool" where
  "cap_reached max_lines st =
     (case max_lines of None \<Rightarrow> False | Some m \<Rightarrow> m \<noteq> 0 \<and> int (total_lines st) \<ge> m)"

text \<open>The loop over the lines of one file; the flag tells that \<open>main\<close> has returned.\<close>

fun parse_lines ::
  "(string \<Rightarrow> error + json) \<Rightarrow> int option \<Rightarrow> string \<Rightarrow> string list \<Rightarrow> parse_state \<Rightarrow>
   bool \<times> parse_state" where
  "parse_lines json_loads max_lines lf [] st = (False, st)"
| "parse_lines json_loads max_lines lf (line # fin) st =
     (if cap_reached max_lines st then (True, st)
      else parse_lines json_loads max_lines lf fin (process_line json_loads lf line st))"

fun parse_files ::
  "(string \<Rightarrow> error + json) \<Rightarrow> int option \<Rightarrow> (string \<times> string list) list \<Rightarrow> parse_state \<Rightarrow>
   bool \<times> parse_state" where
  "parse_files json_loads max_lines [] st = (False, st)"
| "parse_files json_loads max_lines ((lf, fin) # log_files) st =
     (case parse_lines json_loads max_lines lf fin st of
        (True, st') \<Rightarrow> (True, st')
      | (False, st') \<Rightarrow> parse_files json_loads max_lines log_files st')"

text \<open>
  \<open>main\<close>: the \<^verbatim>\<open>traffic.txt*\<close> files of the logs folder (none when the folder does not
  exist), each with its lines, and the output file before the run.  The result is the
  exit of the run (\<^verbatim>\<open>sys.exit(1)\<close> when there is no log file), the output file after it
  and the counters.  The output file is opened, and so emptied, before the first line is
  read.
\<close>

definition parse_logs_main ::
  "(string \<Rightarrow> error + json) \<Rightarrow> int option \<Rightarrow> (string \<times> string list) list \<Rightarrow>
   log_record list option \<Rightarrow> error option \<times> log_record list option \<times> parse_state" where
  "parse_logs_main json_loads max_lines files output =
     (let log_files = sort_key fst files;
          start = \<lparr>total_lines = 0, parsed = 0, errors = 0, rows = []\<rparr>
      in if log_files = [] then (Some (SystemExit 1), output, start)
         else (case parse_files json_loads max_lines log_files start of
                 (returned, st) \<Rightarrow> (None, Some (rows st), st)))"

text \<open>
  All the lines of the log files, in the order they are read, each with the name of its
  file; and the state after reading a list of lines with no cap.
\<close>

definition log_lines :: "(string \<times> string list) list \<Rightarrow> (string \<times> string) list" where
  "log_lines files = concat (map (\<lambda>(lf, fin). map (Pair lf) fin) (sort_key fst files))"

definition read_lines ::
  "(string \<Rightarrow> error + json) \<Rightarrow> (string \<times> string) list \<Rightarrow> parse_state \<Rightarrow> parse_state" where
  "read_lines json_loads ls st = fold (\<lambda>(lf, line). process_line json_loads lf line) ls st"

section \<open>Properties of the folder-name pattern\<close>

lemma rm_Digit_drop:
  "rmatch Digit i (drop n s) k \<longleftrightarrow> (n < length s \<and> is_digit (s ! n) \<and> k (Suc i) (drop (Suc n) s))"
proof (cases "n < length s")
  case True
  then have "drop n s = s ! n # drop (Suc n) s"
    by (simp add: Cons_nth_drop_Suc)
  with True show ?thesis by simp
next
  case False
  then show ?thesis by simp
qed

lemma rm_Lit_drop:
  "rmatch (Lit a) i (drop n s) k \<longleftrightarrow> (n < length s \<and> s ! n = a \<and> k (Suc i) (drop (Suc n) s))"
proof (cases "n < length s")
  case True
  then have "drop n s = s ! n # drop (Suc n) s"
    by (simp add: Cons_nth_drop_Suc)
  with True show ?thesis by simp
next
  case False
  then show ?thesis by simp
qed

lemma tail_shape:
  "rmatch (Seq (Opt (Seq (Lit (CHR ''_'')) (OneOf ''hl''))) Eol) i r (\<lambda>j t. True) \<longleftrightarrow>
     (r = [] \<or> r = [newline] \<or> r = ''_h'' \<or> r = ''_l'' \<or> r = ''_h'' @ [newline] \<or> r = ''_l'' @ [newline])"
  by (auto simp: newline_def split: list.splits)

lemma head_shape:
  "is_valid_folder_name s \<longleftrightarrow>
     (10 \<le> length s \<and> is_digit (s ! 0) \<and> is_digit (s ! 1) \<and> is_digit (s ! 2) \<and> is_digit (s ! 3) \<and>
      s ! 4 = CHR ''-'' \<and> is_digit (s ! 5) \<and> is_digit (s ! 6) \<and> s ! 7 = CHR ''-'' \<and>
      is_digit (s ! 8) \<and> is_digit (s ! 9) \<and>
      rmatch (Seq (Opt (Seq (Lit (CHR ''_'')) (OneOf ''hl''))) Eol) 10 (drop 10 s) (\<lambda>j t. True))"
proof -
  have "is_valid_folder_name s = re_match FOLDER_PATTERN (drop 0 s)"
    by (simp add: is_valid_folder_name_def)
  also have "\<dots> = (10 \<le> length s \<and> is_digit (s ! 0) \<and> is_digit (s ! 1) \<and> is_digit (s ! 2) \<and> is_digit (s ! 3) \<and>
      s ! 4 = CHR ''-'' \<and> is_digit (s ! 5) \<and> is_digit (s ! 6) \<and> s ! 7 = CHR ''-'' \<and>
      is_digit (s ! 8) \<and> is_digit (s ! 9) \<and>
      rmatch (Seq (Opt (Seq (Lit (CHR ''_'')) (OneOf ''hl''))) Eol) 10 (drop 10 s) (\<lambda>j t. True))"
    unfolding re_match_def FOLDER_PATTERN_def seqs.simps rmatch.simps(1,6) rm_Digit_drop rm_Lit_drop
    by (auto simp: numeral_eq_Suc)
  finally show ?thesis .
qed

lemma date_form_nth:
  "date_form t \<longleftrightarrow> (length t = 10 \<and> is_digit (t ! 0) \<and> is_digit (t ! 1) \<and> is_digit (t ! 2) \<and> is_digit (t ! 3) \<and>
      t ! 4 = CHR ''-'' \<and> is_digit (t ! 5) \<and> is_digit (t ! 6) \<and> t ! 7 = CHR ''-'' \<and>
      is_digit (t ! 8) \<and> is_digit (t ! 9))"
  unfolding date_form_def list_all_length
  by (auto simp: numeral_eq_Suc less_Suc_eq)

lemma date_form_take_len: "date_form (take 10 s) \<Longrightarrow> 10 \<le> length s"
  by (simp add: date_form_def min_def split: if_splits)

lemma valid_iff:
  "is_valid_folder_name s \<longleftrightarrow>
     date_form (take 10 s) \<and>
     drop 10 s \<in> {[], [newline], ''_h'', ''_l'', ''_h'' @ [newline], ''_l'' @ [newline]}"
proof (cases "10 \<le> length s")
  case True
  then show ?thesis
    unfolding head_shape tail_shape date_form_nth by (simp add: min_def)
next
  case False
  then show ?thesis
    unfolding head_shape tail_shape date_form_nth by simp
qed

lemma spec_iff:
  "spec_folder_name s \<longleftrightarrow> date_form (take 10 s) \<and> drop 10 s \<in> {[], ''_h'', ''_l''}"
  by (simp add: spec_folder_name_def)

lemma spec_nl_iff:
  "(\<exists>t. s = t @ [newline] \<and> spec_folder_name t) \<longleftrightarrow>
     date_form (take 10 s) \<and> drop 10 s \<in> {[newline], ''_h'' @ [newline], ''_l'' @ [newline]}"
proof
  assume "\<exists>t. s = t @ [newline] \<and> spec_folder_name t"
  then obtain t where s: "s = t @ [newline]" and t: "spec_folder_name t" by blast
  from t have len: "10 \<le> length t"
    by (simp add: spec_iff date_form_take_len)
  with s have "take 10 s = take 10 t" "drop 10 s = drop 10 t @ [newline]" by simp_all
  with t show "date_form (take 10 s) \<and> drop 10 s \<in> {[newline], ''_h'' @ [newline], ''_l'' @ [newline]}"
    by (auto simp: spec_iff)
next
  assume a: "date_form (take 10 s) \<and> drop 10 s \<in> {[newline], ''_h'' @ [newline], ''_l'' @ [newline]}"
  then have len: "10 \<le> length s" by (simp add: date_form_take_len)
  from a have "drop 10 s = butlast (drop 10 s) @ [newline]"
    and b: "butlast (drop 10 s) \<in> {[], ''_h'', ''_l''}" by auto
  then have "s = (take 10 s @ butlast (drop 10 s)) @ [newline]"
    by (metis append_take_drop_id append_assoc)
  moreover have "spec_folder_name (take 10 s @ butlast (drop 10 s))"
    using a b len by (simp add: spec_iff)
  ultimately show "\<exists>t. s = t @ [newline] \<and> spec_folder_name t" by blast
qed

text \<open>
  What the pattern accepts: the names of the convention, and each of them followed by
  one newline.
\<close>

lemma folder_name_shape:
  "is_valid_folder_name s \<longleftrightarrow>
     spec_folder_name s \<or> (\<exists>t. s = t @ [newline] \<and> spec_folder_name t)"
  unfolding valid_iff spec_nl_iff unfolding spec_iff by blast

lemma spec_folder_name_accepted: "spec_folder_name s \<Longrightarrow> is_valid_folder_name s"
  by (simp add: folder_name_shape)

lemma folder_name_examples:
  "is_valid_folder_name ''2023-13-01''" "\<not> is_valid_folder_name ''20230101''"
  "is_valid_folder_name ''2023-10-21_h''" "is_valid_folder_name ''2023-10-21_l''"
  by (simp_all add: is_valid_folder_name_def re_match_def FOLDER_PATTERN_def is_digit_def newline_def)

text \<open>
  C5.  The claim: \<^verbatim>\<open>is_valid_folder_name(s)\<close> is true exactly for the strings of the form
  \<^verbatim>\<open>YYYY-MM-DD\<close>, \<^verbatim>\<open>YYYY-MM-DD_h\<close> or \<^verbatim>\<open>YYYY-MM-DD_l\<close>.  The pattern ends in \<^verbatim>\<open>$\<close>, which in
  Python also matches before a final newline, so the function is true on the string
  \<^verbatim>\<open>2023-01-01\<close> followed by a newline, which is not of that form.
\<close>

theorem is_valid_folder_name_trailing_newline:
  "is_valid_folder_name (''2023-01-01'' @ [newline]) \<and>
   \<not> spec_folder_name (''2023-01-01'' @ [newline])"
  by (simp add: is_valid_folder_name_def re_match_def FOLDER_PATTERN_def is_digit_def
      newline_def spec_folder_name_def)

section \<open>Properties of date validation\<close>

lemma dv: "digit_val (CHR ''0'') = 0" "digit_val (CHR ''1'') = 1" "digit_val (CHR ''2'') = 2"
  "digit_val (CHR ''3'') = 3" "digit_val (CHR ''4'') = 4" "digit_val (CHR ''5'') = 5"
  "digit_val (CHR ''6'') = 6" "digit_val (CHR ''7'') = 7" "digit_val (CHR ''8'') = 8"
  "digit_val (CHR ''9'') = 9"
  by (simp_all add: digit_val_def)

lemma is_digit_cases:
  "is_digit c \<longleftrightarrow> c = CHR ''0'' \<or> c = CHR ''1'' \<or> c = CHR ''2'' \<or> c = CHR ''3'' \<or> c = CHR ''4'' \<or>
     c = CHR ''5'' \<or> c = CHR ''6'' \<or> c = CHR ''7'' \<or> c = CHR ''8'' \<or> c = CHR ''9''"
  by (auto simp: is_digit_def)

lemma digit_facts:
  assumes "is_digit c"
  shows "digit_val c < 10"
    and "c = CHR ''0'' \<longleftrightarrow> digit_val c = 0"
    and "c = CHR ''1'' \<longleftrightarrow> digit_val c = 1"
    and "c = CHR ''3'' \<longleftrightarrow> digit_val c = 3"
    and "c \<noteq> CHR ''-''"
    and "c \<noteq> CHR '' ''"
    and "c \<noteq> CHR ''_''"
    and "c \<in> set ''012'' \<longleftrightarrow> digit_val c \<le> 2"
    and "c \<in> set ''01'' \<longleftrightarrow> digit_val c \<le> 1"
    and "c \<in> set ''12'' \<longleftrightarrow> 1 \<le> digit_val c \<and> digit_val c \<le> 2"
    and "c \<in> set ''123456789'' \<longleftrightarrow> 1 \<le> digit_val c"
  using assms unfolding is_digit_cases
  by (auto simp: dv)


lemma digit_eq:
  assumes "is_digit c"
  shows "c = CHR ''0'' \<longleftrightarrow> digit_val c = 0" "c = CHR ''1'' \<longleftrightarrow> digit_val c = 1"
    "c = CHR ''2'' \<longleftrightarrow> digit_val c = 2" "c = CHR ''3'' \<longleftrightarrow> digit_val c = 3"
    "c = CHR ''4'' \<longleftrightarrow> digit_val c = 4" "c = CHR ''5'' \<longleftrightarrow> digit_val c = 5"
    "c = CHR ''6'' \<longleftrightarrow> digit_val c = 6" "c = CHR ''7'' \<longleftrightarrow> digit_val c = 7"
    "c = CHR ''8'' \<longleftrightarrow> digit_val c = 8" "c = CHR ''9'' \<longleftrightarrow> digit_val c = 9"
  using assms unfolding is_digit_cases
  by (auto simp: dv)

lemma month_then_dash:
  assumes "is_digit a" "is_digit b"
  shows "concat (map (\<lambda>(m, r3). concat (map (g m) (dash r3))) (month_alts (a # b # CHR ''-'' # rest))) =
         (if 1 \<le> num2 a b \<and> num2 a b \<le> 12 then g (num2 a b) rest else [])"
proof -
  note fa = digit_facts[OF assms(1)] and fb = digit_facts[OF assms(2)]
  have d1: "dash (b # CHR ''-'' # rest) = []"
    using fb(5) by (simp add: dash_def)
  have d2: "dash (CHR ''-'' # rest) = [rest]"
    by (simp add: dash_def)
  have m: "month_alts (a # b # CHR ''-'' # rest) =
      (if digit_val a = 1 \<and> digit_val b \<le> 2 then [(10 + digit_val b, CHR ''-'' # rest)] else []) @
      (if digit_val a = 0 \<and> 1 \<le> digit_val b then [(digit_val b, CHR ''-'' # rest)] else []) @
      (if 1 \<le> digit_val a then [(digit_val a, b # CHR ''-'' # rest)] else [])"
    unfolding month_alts_def list.case fa(3)[symmetric] fa(2)[symmetric] fb(8)[symmetric]
      fb(11)[symmetric] fa(11)[symmetric] by (simp only: append_assoc)
  have cases: "(1 \<le> num2 a b \<and> num2 a b \<le> 12) \<longleftrightarrow>
      (digit_val a = 1 \<and> digit_val b \<le> 2) \<or> (digit_val a = 0 \<and> 1 \<le> digit_val b)"
    using fa(1) fb(1) unfolding num2_def by arith
  show ?thesis
  proof (cases "digit_val a = 1 \<and> digit_val b \<le> 2")
    case True
    then have n: "num2 a b = 10 + digit_val b" "\<not> (digit_val a = 0 \<and> 1 \<le> digit_val b)" "1 \<le> digit_val a"
      by (simp_all add: num2_def)
    from True cases have ok: "1 \<le> num2 a b \<and> num2 a b \<le> 12" by blast
    show ?thesis
      unfolding m if_P[OF True] if_not_P[OF n(2)] if_P[OF n(3)] if_P[OF ok]
      by (simp add: d1 d2 n(1))
  next
    case False
    note nf = this
    show ?thesis
    proof (cases "digit_val a = 0 \<and> 1 \<le> digit_val b")
      case True
      then have n: "num2 a b = digit_val b" "\<not> 1 \<le> digit_val a"
        by (simp_all add: num2_def)
      from True cases have ok: "1 \<le> num2 a b \<and> num2 a b \<le> 12" by blast
      show ?thesis
        unfolding m if_not_P[OF nf] if_P[OF True] if_not_P[OF n(2)] if_P[OF ok]
        by (simp add: d1 d2 n(1))
    next
      case False
      with nf cases have no: "\<not> (1 \<le> num2 a b \<and> num2 a b \<le> 12)" by blast
      show ?thesis
        unfolding m if_not_P[OF nf] if_not_P[OF False] if_not_P[OF no]
        by (simp add: d1 d2)
    qed
  qed
qed

lemma day_alts_digits:
  assumes "is_digit a" "is_digit b"
  shows "(case day_alts (a # b # rest) of [] \<Rightarrow> None | x # xs \<Rightarrow> Some x) =
         (if 1 \<le> num2 a b \<and> num2 a b \<le> 31 then Some (num2 a b, rest)
          else if 1 \<le> digit_val a then Some (digit_val a, b # rest) else None)"
proof -
  note fb = digit_facts[OF assms(2)]
  have b10: "digit_val b < 10" by (rule fb(1))
  show ?thesis
    using assms(1) unfolding is_digit_cases
    apply (elim disjE)
    apply (simp_all add: day_alts_def num2_def dv digit_eq[OF assms(2)] assms(2))
    using b10 apply auto
    done
qed


lemma case_map_head:
  "(case map f xs of [] \<Rightarrow> A | x # ys \<Rightarrow> B x) =
   (case (case xs of [] \<Rightarrow> None | x # ys \<Rightarrow> Some x) of None \<Rightarrow> A | Some x \<Rightarrow> B (f x))"
  by (cases xs) simp_all

lemma days_in_month_le: "days_in_month y m \<le> 31"
  by (simp add: days_in_month_def)

lemma strptime_explicit:
  assumes y: "is_digit y1" "is_digit y2" "is_digit y3" "is_digit y4"
    and m: "is_digit m1" "is_digit m2" and d: "is_digit d1" "is_digit d2"
  shows "strptime_ymd (y1 # y2 # y3 # y4 # CHR ''-'' # m1 # m2 # CHR ''-'' # d1 # d2 # r) =
     (if r = [] \<and> 1 \<le> 100 * num2 y1 y2 + num2 y3 y4 \<and> 1 \<le> num2 m1 m2 \<and> num2 m1 m2 \<le> 12 \<and>
         1 \<le> num2 d1 d2 \<and> num2 d1 d2 \<le> days_in_month (100 * num2 y1 y2 + num2 y3 y4) (num2 m1 m2)
      then Inr (100 * num2 y1 y2 + num2 y3 y4, num2 m1 m2, num2 d1 d2)
      else Inl ValueError)"
proof -
  let ?Y = "100 * num2 y1 y2 + num2 y3 y4"
  let ?M = "num2 m1 m2"
  let ?D = "num2 d1 d2"
  have ya: "year_alts (y1 # y2 # y3 # y4 # CHR ''-'' # m1 # m2 # CHR ''-'' # d1 # d2 # r) =
      [(?Y, CHR ''-'' # m1 # m2 # CHR ''-'' # d1 # d2 # r)]"
    using y by (simp add: year_alts_def num2_def)
  have da: "dash (CHR ''-'' # m1 # m2 # CHR ''-'' # d1 # d2 # r) = [m1 # m2 # CHR ''-'' # d1 # d2 # r]"
    by (simp add: dash_def)
  have mm: "ymd_matches (y1 # y2 # y3 # y4 # CHR ''-'' # m1 # m2 # CHR ''-'' # d1 # d2 # r) =
      (if 1 \<le> ?M \<and> ?M \<le> 12 then map (\<lambda>(d, r5). ((?Y, ?M, d), r5)) (day_alts (d1 # d2 # r)) else [])"
    by (simp add: ymd_matches_def ya da month_then_dash[OF m] del: One_nat_def)
  show ?thesis
  proof (cases "1 \<le> ?M \<and> ?M \<le> 12")
    case False
    then show ?thesis unfolding strptime_ymd_def mm by auto
  next
    case True
    note Mok = this
    have mm': "ymd_matches (y1 # y2 # y3 # y4 # CHR ''-'' # m1 # m2 # CHR ''-'' # d1 # d2 # r) =
        map (\<lambda>(d, r5). ((?Y, ?M, d), r5)) (day_alts (d1 # d2 # r))"
      unfolding mm using True by simp
    show ?thesis
    proof (cases "1 \<le> ?D \<and> ?D \<le> 31")
      case True
      then show ?thesis
        unfolding strptime_ymd_def mm' case_map_head day_alts_digits[OF d]
        using Mok by auto
    next
      case False
      then have "\<not> (1 \<le> ?D \<and> ?D \<le> days_in_month ?Y ?M)"
        using days_in_month_le[of ?Y ?M] by arith
      with False show ?thesis
        unfolding strptime_ymd_def mm' case_map_head day_alts_digits[OF d]
        by auto
    qed
  qed
qed

lemma explode10:
  assumes "10 \<le> length s"
  shows "s = s ! 0 # s ! 1 # s ! 2 # s ! 3 # s ! 4 # s ! 5 # s ! 6 # s ! 7 # s ! 8 # s ! 9 # drop 10 s"
proof -
  have d0: "drop 0 s = s ! 0 # drop 1 s"
    using assms Cons_nth_drop_Suc[of 0 s] by (cases s) simp_all
  have d1: "drop 1 s = s ! 1 # drop 2 s"
    using assms Cons_nth_drop_Suc[of 1 s] by (simp add: eval_nat_numeral)
  have d2: "drop 2 s = s ! 2 # drop 3 s"
    using assms Cons_nth_drop_Suc[of 2 s] by (simp add: eval_nat_numeral)
  have d3: "drop 3 s = s ! 3 # drop 4 s"
    using assms Cons_nth_drop_Suc[of 3 s] by (simp add: eval_nat_numeral)
  have d4: "drop 4 s = s ! 4 # drop 5 s"
    using assms Cons_nth_drop_Suc[of 4 s] by (simp add: eval_nat_numeral)
  have d5: "drop 5 s = s ! 5 # drop 6 s"
    using assms Cons_nth_drop_Suc[of 5 s] by (simp add: eval_nat_numeral)
  have d6: "drop 6 s = s ! 6 # drop 7 s"
    using assms Cons_nth_drop_Suc[of 6 s] by (simp add: eval_nat_numeral)
  have d7: "drop 7 s = s ! 7 # drop 8 s"
    using assms Cons_nth_drop_Suc[of 7 s] by (simp add: eval_nat_numeral)
  have d8: "drop 8 s = s ! 8 # drop 9 s"
    using assms Cons_nth_drop_Suc[of 8 s] by (simp add: eval_nat_numeral)
  have d9: "drop 9 s = s ! 9 # drop 10 s"
    using assms Cons_nth_drop_Suc[of 9 s] by (simp add: eval_nat_numeral)
  have "drop 0 s = s ! 0 # s ! 1 # s ! 2 # s ! 3 # s ! 4 # s ! 5 # s ! 6 # s ! 7 # s ! 8 # s ! 9 # drop 10 s"
    by (simp only: d0 d1 d2 d3 d4 d5 d6 d7 d8 d9)
  then show ?thesis by simp
qed

lemma strptime_date_form:
  assumes "date_form (take 10 s)"
  shows "strptime_ymd s =
     (if drop 10 s = [] \<and> real_calendar_date (take 10 s)
      then Inr (year_of s, month_of s, day_of s) else Inl ValueError)"
proof -
  from assms have len: "10 \<le> length s" by (rule date_form_take_len)
  from assms len have nth: "is_digit (s ! 0)" "is_digit (s ! 1)" "is_digit (s ! 2)" "is_digit (s ! 3)"
    "s ! 4 = CHR ''-''" "is_digit (s ! 5)" "is_digit (s ! 6)" "s ! 7 = CHR ''-''"
    "is_digit (s ! 8)" "is_digit (s ! 9)"
    by (simp_all add: date_form_nth)
  have yt: "year_of (take 10 s) = year_of s" "month_of (take 10 s) = month_of s"
    "day_of (take 10 s) = day_of s"
    by (simp_all add: year_of_def month_of_def day_of_def)
  have "strptime_ymd s = strptime_ymd (s ! 0 # s ! 1 # s ! 2 # s ! 3 # CHR ''-'' # s ! 5 # s ! 6 #
      CHR ''-'' # s ! 8 # s ! 9 # drop 10 s)"
    using explode10[OF len] nth(5,8) by simp
  also have "\<dots> = (if drop 10 s = [] \<and> real_calendar_date (take 10 s)
      then Inr (year_of s, month_of s, day_of s) else Inl ValueError)"
    unfolding strptime_explicit[OF nth(1-4) nth(6,7) nth(9,10)]
    using assms by (simp add: real_calendar_date_def yt year_of_def month_of_def day_of_def)
  finally show ?thesis .
qed

lemma is_valid_date_date_form:
  assumes "date_form t"
  shows "is_valid_date t \<longleftrightarrow> real_calendar_date t \<and> year_in_range t"
proof -
  from assms have l: "length t = 10" by (simp add: date_form_def)
  then have "take 10 t = t" "drop 10 t = []" by simp_all
  with assms strptime_date_form[of t] show ?thesis
    by (simp add: is_valid_date_def year_in_range_def)
qed

lemma is_valid_date_leftover:
  assumes "date_form (take 10 s)" "drop 10 s \<noteq> []"
  shows "\<not> is_valid_date s"
  using strptime_date_form[OF assms(1)] assms(2) by (simp add: is_valid_date_def)

lemma split_on_no_sep: "sep \<notin> set s \<Longrightarrow> split_on sep s = [s]"
  by (induction s) auto

lemma split_on_append: "sep \<notin> set a \<Longrightarrow> split_on sep (a @ sep # b) = a # split_on sep b"
  by (induction a) auto

lemma date_form_no_underscore:
  assumes "date_form t"
  shows "CHR ''_'' \<notin> set t"
proof -
  from assms have l: "length t = 10" by (simp add: date_form_def)
  then have "t = [t ! 0, t ! 1, t ! 2, t ! 3, t ! 4, t ! 5, t ! 6, t ! 7, t ! 8, t ! 9]"
    using explode10[of t] by simp
  then have "set t = {t ! 0, t ! 1, t ! 2, t ! 3, t ! 4, t ! 5, t ! 6, t ! 7, t ! 8, t ! 9}"
    by (metis list.simps(15) empty_set)
  moreover have "CHR ''_'' \<notin> {t ! 0, t ! 1, t ! 2, t ! 3, t ! 4, t ! 5, t ! 6, t ! 7, t ! 8, t ! 9}"
    using assms unfolding date_form_nth by (auto dest: digit_facts(7))
  ultimately show ?thesis by simp
qed

section \<open>Properties of the folder scanner\<close>

lemma parse_candidate:
  assumes "is_valid_folder_name f"
  shows "((drop 10 f = [] \<or> drop 10 f = [newline]) \<and> parse_folder_name f = Inr (f, ''u'')) \<or>
         (\<exists>q. drop 10 f = CHR ''_'' # q \<and> parse_folder_name f = Inr (take 10 f, q))"
proof -
  from assms have df: "date_form (take 10 f)"
    and tl: "drop 10 f \<in> {[], [newline], ''_h'', ''_l'', ''_h'' @ [newline], ''_l'' @ [newline]}"
    by (simp_all add: valid_iff)
  have f: "f = take 10 f @ drop 10 f" by simp
  have nu: "CHR ''_'' \<notin> set (take 10 f)" using df by (rule date_form_no_underscore)
  show ?thesis
  proof (cases "drop 10 f = [] \<or> drop 10 f = [newline]")
    case True
    then have "CHR ''_'' \<notin> set (drop 10 f)" by (auto simp: newline_def)
    with nu have "CHR ''_'' \<notin> set f" by (metis f set_append Un_iff)
    then have "parse_folder_name f = Inr (f, ''u'')" by (simp add: parse_folder_name_def)
    with True show ?thesis by blast
  next
    case False
    with tl obtain q where q: "drop 10 f = CHR ''_'' # q" and nq: "CHR ''_'' \<notin> set q" 
      by (auto simp: newline_def)
    then have f': "f = take 10 f @ CHR ''_'' # q" using f by simp
    have "CHR ''_'' \<in> set f" by (subst f') simp
    moreover have "split_on (CHR ''_'') f = [take 10 f, q]"
      by (subst f') (simp add: split_on_append[OF nu] split_on_no_sep[OF nq])
    ultimately have "parse_folder_name f = Inr (take 10 f, q)"
      by (simp add: parse_folder_name_def)
    with q show ?thesis by blast
  qed
qed

lemma convention_parses:
  assumes "spec_folder_name f"
  shows "parse_folder_name f = Inr (date_portion f, quality_tag f)"
proof -
  from assms have v: "is_valid_folder_name f" by (rule spec_folder_name_accepted)
  from assms have d: "drop 10 f = [] \<or> drop 10 f = ''_h'' \<or> drop 10 f = ''_l''"
    and df: "date_form (take 10 f)"
    by (simp_all add: spec_folder_name_def)
  from df have len: "10 \<le> length f" by (rule date_form_take_len)
  from d show ?thesis
  proof (elim disjE)
    assume e: "drop 10 f = []"
    with len have "take 10 f = f" by simp
    with parse_candidate[OF v] e show ?thesis
      by (auto simp: date_portion_def quality_tag_def)
  next
    assume "drop 10 f = ''_h''"
    with parse_candidate[OF v] show ?thesis
      by (auto simp: date_portion_def quality_tag_def newline_def)
  next
    assume "drop 10 f = ''_l''"
    with parse_candidate[OF v] show ?thesis
      by (auto simp: date_portion_def quality_tag_def newline_def)
  qed
qed

lemma convention_date_check:
  assumes "spec_folder_name f"
  shows "is_valid_date (date_portion f) \<longleftrightarrow> semantically_valid f"
proof -
  from assms have "date_form (take 10 f)" by (simp add: spec_folder_name_def)
  then show ?thesis
    by (simp add: semantically_valid_def date_portion_def is_valid_date_date_form)
qed

lemma scan_loop_convention:
  assumes "\<forall>f\<in>set fs. spec_folder_name f"
  shows "scan_loop root_path modality fs (v, i) =
     Inr (v @ map (valid_record_of root_path modality) (filter semantically_valid fs),
          i @ map (invalid_record_of root_path modality) (filter (\<lambda>f. \<not> semantically_valid f) fs))"
  using assms
proof (induction fs arbitrary: v i)
  case Nil
  then show ?case by simp
next
  case (Cons f fs)
  then have vf: "spec_folder_name f" and rest: "\<forall>g\<in>set fs. spec_folder_name g" by simp_all
  note p = convention_parses[OF vf] and c = convention_date_check[OF vf]
  show ?case
  proof (cases "semantically_valid f")
    case True
    with c have "is_valid_date (date_portion f)" by simp
    with True show ?thesis
      by (simp add: p Cons.IH[OF rest] valid_record_of_def split: prod.splits)
  next
    case False
    with c have "\<not> is_valid_date (date_portion f)" by simp
    with False show ?thesis
      by (simp add: p Cons.IH[OF rest] invalid_record_of_def split: prod.splits)
  qed
qed

lemma invalid_record_of_fields:
  "ir_folder_name (invalid_record_of root_path modality f) = f"
  "ir_reason (invalid_record_of root_path modality f) = ''invalid_year_or_bad_date''"
  "ir_parsed_date (invalid_record_of root_path modality f) = date_portion f"
  by (simp_all add: invalid_record_of_def split: prod.splits)

lemma valid_record_of_fields:
  "vr_date (valid_record_of root_path modality f) = date_portion f"
  "vr_quality (valid_record_of root_path modality f) = quality_tag f"
  by (simp_all add: valid_record_of_def split: prod.splits)

lemma no_newline_convention:
  assumes "is_valid_folder_name d" "newline \<notin> set d"
  shows "spec_folder_name d"
proof -
  from assms(1) have "spec_folder_name d \<or> (\<exists>t. d = t @ [newline] \<and> spec_folder_name t)"
    by (simp add: folder_name_shape)
  with assms(2) show ?thesis by auto
qed

text \<open>
  When no entry of the root has a newline in its name, the scanner does what the
  specification says.  It does not fail.  The candidates are the entries that are named
  by the convention and are directories, each once.  The valid list holds, in order, the
  date portion and the quality tag of each candidate that is semantically valid, the
  invalid list the name of each candidate that is not, with the reason code; an entry
  not named by the convention gets no record in either list.
\<close>

lemma scan_modality_root_classifies:
  assumes "listdir root_path = Inr entries" and "distinct entries"
    and "list_all (\<lambda>d. newline \<notin> set d) entries"
  shows "\<exists>candidates valid invalid.
     scan_modality_root root_path modality = Inr (valid, invalid) \<and>
     distinct candidates \<and>
     set candidates = {d \<in> set entries. spec_folder_name d \<and> isdir (child root_path d)} \<and>
     map (\<lambda>r. (vr_date r, vr_quality r)) valid =
       map (\<lambda>f. (date_portion f, quality_tag f)) (filter semantically_valid candidates) \<and>
     map ir_folder_name invalid = filter (\<lambda>f. \<not> semantically_valid f) candidates \<and>
     list_all (\<lambda>r. ir_reason r = ''invalid_year_or_bad_date'') invalid"
proof -
  let ?c = "sort (filter (\<lambda>d. is_valid_folder_name d \<and> isdir (child root_path d)) entries)"
  have lc: "list_candidate_folders root_path = Inr ?c"
    using assms(1) by (simp add: list_candidate_folders_def)
  have conv: "is_valid_folder_name d \<longleftrightarrow> spec_folder_name d" if "d \<in> set entries" for d
    using that assms(3) no_newline_convention[of d] spec_folder_name_accepted[of d]
    by (auto simp: list_all_iff)
  have allv: "\<forall>f\<in>set ?c. spec_folder_name f" using conv by auto
  have scan: "scan_modality_root root_path modality =
      Inr (map (valid_record_of root_path modality) (filter semantically_valid ?c),
           map (invalid_record_of root_path modality) (filter (\<lambda>f. \<not> semantically_valid f) ?c))"
    unfolding scan_modality_root_def lc using scan_loop_convention[OF allv, of root_path modality "[]" "[]"]
    by simp
  have d: "distinct ?c" using assms(2) by simp
  have s: "set ?c = {d \<in> set entries. spec_folder_name d \<and> isdir (child root_path d)}"
    using conv by auto
  have dates: "map (\<lambda>r. (vr_date r, vr_quality r))
        (map (valid_record_of root_path modality) (filter semantically_valid ?c)) =
      map (\<lambda>f. (date_portion f, quality_tag f)) (filter semantically_valid ?c)"
    by (simp add: o_def valid_record_of_fields)
  have names: "map ir_folder_name (map (invalid_record_of root_path modality) (filter (\<lambda>f. \<not> semantically_valid f) ?c)) =
      filter (\<lambda>f. \<not> semantically_valid f) ?c"
    by (simp add: o_def invalid_record_of_fields)
  have reasons: "list_all (\<lambda>r. ir_reason r = ''invalid_year_or_bad_date'')
      (map (invalid_record_of root_path modality) (filter (\<lambda>f. \<not> semantically_valid f) ?c))"
    by (simp add: list_all_iff invalid_record_of_fields)
  from scan d s dates names reasons show ?thesis by blast
qed

text \<open>
  The examples of the specification: a folder dated 2021-05-01 is out of the range 2022 to
  2025, one dated 2024-05-01 is in it; a date that is not in the calendar is not valid.
\<close>

lemma year_range_examples:
  "\<not> semantically_valid ''2021-05-01''" "semantically_valid ''2024-05-01''"
  "\<not> semantically_valid ''2023-13-01''" "semantically_valid ''2024-02-29_h''"
  "\<not> semantically_valid ''2023-02-29_l''"
  by (simp_all add: semantically_valid_def date_portion_def
      real_calendar_date_def year_in_range_def date_form_def is_digit_def year_of_def month_of_def
      day_of_def num2_def digit_val_def days_in_month_def is_leap_def VALID_YEAR_MIN_def
      VALID_YEAR_MAX_def)

text \<open>A scan, computed: a file size that cannot be read is skipped, a plain file is no folder.\<close>

lemma scan_modality_root_example:
  "scan_modality_root
     (Some (Dir (Some [(''2024-05-01_h'', Dir (Some [(''a.jpg'', File (Some 10)), (''b.jpg'', File None)])),
                       (''2023-13-01'', Dir (Some [])),
                       (''junk'', Dir None),
                       (''2021-05-01'', File (Some 3))]))) ''image'' =
   Inr ([\<lparr>vr_date = ''2024-05-01'', vr_modality = ''image'', vr_quality = ''h'',
          vr_file_count = 2, vr_total_size = 10\<rparr>],
        [\<lparr>ir_folder_name = ''2023-13-01'', ir_parsed_date = ''2023-13-01'',
          ir_modality = ''image'', ir_quality = ''u'', ir_file_count = 0, ir_total_size = 0,
          ir_reason = ''invalid_year_or_bad_date''\<rparr>])"
  by code_simp

text \<open>
  \<open>list_valid_folders\<close> and \<open>list_invalid_year_folders\<close> test the year only: a folder
  whose date is not in the calendar is listed as valid by the first when its year is in
  the range, while the scanner puts it in the invalid list.
\<close>

lemma is_valid_year_only:
  "is_valid_year (extract_date ''2023-13-01'')" "\<not> is_valid_date ''2023-13-01''"
  by code_simp+

text \<open>
  C2.  The claim: every folder name that matches the pattern \<^verbatim>\<open>YYYY-MM-DD[_h|_l]\<close> goes
  into exactly one of the two lists, the valid one exactly when its date portion is a
  real calendar date with a year from 2022 to 2025, and a name that does not match the
  pattern appears in neither list.  The pattern of the code also accepts a name of the
  convention followed by a newline: the folder \<^verbatim>\<open>2024-05-01_h\<close> followed by a newline
  does not match the pattern of the claim, and the scanner puts a record for it in the
  valid list, with the quality \<^verbatim>\<open>h\<close> followed by the newline.
\<close>

theorem scan_files_newline_folder_as_valid:
  "\<not> spec_folder_name (''2024-05-01_h'' @ [newline]) \<and>
   scan_modality_root
     (Some (Dir (Some [(''2024-05-01_h'' @ [newline], Dir (Some []))]))) ''image'' =
   Inr ([\<lparr>vr_date = ''2024-05-01'', vr_modality = ''image'', vr_quality = ''h'' @ [newline],
          vr_file_count = 0, vr_total_size = 0\<rparr>], [])"
  by code_simp

section \<open>Properties of the daily aggregators\<close>

lemma set_dropna: "set (dropna xs) = {x. Some x \<in> set xs}"
  by (induction xs rule: dropna.induct) auto

lemma length_dropna_map:
  "length (dropna (map col g)) = length (filter (\<lambda>r. col r \<noteq> None) g)"
  by (induction g) (auto split: option.splits)

lemma count_map: "count (map col g) = length (filter (\<lambda>r. col r \<noteq> None) g)"
  by (simp add: count_def length_dropna_map)

lemma sum_list_indicator:
  "distinct ks \<Longrightarrow> sum_list (map (\<lambda>k. if k = a \<and> P then 1 else 0) ks) = (if a \<in> set ks \<and> P then (1::nat) else 0)"
  by (induction ks) auto

lemma sum_group_sizes:
  assumes "distinct ks" and "\<forall>r\<in>set df. \<forall>k. key r = Some k \<longrightarrow> k \<in> set ks"
  shows "sum_list (map (\<lambda>k. length (filter (\<lambda>r. P r) (filter (\<lambda>r. key r = Some k) df))) ks) =
         length (filter (\<lambda>r. key r \<noteq> None \<and> P r) df)"
  using assms(2)
proof (induction df)
  case Nil
  then show ?case by simp
next
  case (Cons r df)
  then have IH: "sum_list (map (\<lambda>k. length (filter (\<lambda>r. P r) (filter (\<lambda>r. key r = Some k) df))) ks) =
         length (filter (\<lambda>r. key r \<noteq> None \<and> P r) df)" by simp
  have split: "(\<lambda>k. length (filter (\<lambda>r. P r) (filter (\<lambda>r. key r = Some k) (r # df)))) =
      (\<lambda>k. (if Some k = key r \<and> P r then 1 else 0) + length (filter (\<lambda>r. P r) (filter (\<lambda>r. key r = Some k) df)))"
    by auto
  show ?case
  proof (cases "key r")
    case None
    then show ?thesis using IH by simp
  next
    case (Some a)
    with Cons.prems have a: "a \<in> set ks" by simp
    have "sum_list (map (\<lambda>k. if Some k = key r \<and> P r then 1 else 0) ks) = (if P r then (1::nat) else 0)"
      using sum_list_indicator[OF assms(1), of a "P r"] a Some by simp
    then show ?thesis
      unfolding split using IH Some by (simp add: sum_list_addf)
  qed
qed

lemma sum_list_insort_key:
  "sum_list (map g (insort_key f x xs)) = (g x :: nat) + sum_list (map g xs)"
  by (induction xs) auto

lemma sum_list_sort_key: "sum_list (map g (sort_key f xs)) = (sum_list (map g xs) :: nat)"
  by (induction xs) (auto simp: sum_list_insort_key)

lemma groupby_keys:
  "distinct (map fst (groupby key df))" "sorted (map fst (groupby key df))"
  "set (map fst (groupby key df)) = {k. Some k \<in> key ` set df}"
  by (auto simp: groupby_def o_def set_dropna)

lemma groupby_count_sum:
  "sum_list (map (\<lambda>kg. count (map col (snd kg))) (groupby key df)) =
   length (filter (\<lambda>r. key r \<noteq> None \<and> col r \<noteq> None) df)"
proof -
  let ?ks = "sort (remdups (dropna (map key df)))"
  have d: "distinct ?ks" by simp
  have c: "\<forall>r\<in>set df. \<forall>k. key r = Some k \<longrightarrow> k \<in> set ?ks"
    by (auto simp: set_dropna image_iff) (metis)
  show ?thesis
    using sum_group_sizes[OF d c, of "\<lambda>r. col r \<noteq> None"]
    by (simp add: groupby_def o_def count_map)
qed

lemma audio_counts_sum:
  "sum_list (map n_audio (audio_daily_agg df)) =
   length (filter (\<lambda>r. a_date r \<noteq> None \<and> a_relative_path r \<noteq> None) df)"
proof -
  have f: "n_audio (audio_agg kg) = count (map a_relative_path (snd kg))" for kg
    by (cases kg) (simp add: audio_agg_def)
  have "sum_list (map n_audio (audio_daily_agg df)) = sum_list (map (\<lambda>kg. count (map a_relative_path (snd kg))) (groupby a_date df))"
    unfolding audio_daily_agg_def sum_list_sort_key by (simp add: o_def f)
  then show ?thesis
    by (simp only: groupby_count_sum)
qed

lemma image_counts_sum:
  "sum_list (map n_images (image_daily_agg df)) =
   length (filter (\<lambda>r. i_date r \<noteq> None \<and> i_file_name r \<noteq> None) df)"
proof -
  have f: "n_images (image_agg kg) = count (map i_file_name (snd kg))" for kg
    by (cases kg) (simp add: image_agg_def)
  have "sum_list (map n_images (image_daily_agg df)) = sum_list (map (\<lambda>kg. count (map i_file_name (snd kg))) (groupby i_date df))"
    unfolding image_daily_agg_def sum_list_sort_key by (simp add: o_def f)
  then show ?thesis
    by (simp only: groupby_count_sum)
qed

lemma list_all_filter_length: "list_all P xs \<longleftrightarrow> length (filter P xs) = length xs"
proof (induction xs)
  case Nil
  then show ?case by simp
next
  case (Cons x xs)
  have "length (filter P xs) \<le> length xs" by (rule length_filter_le)
  then have "length (filter P xs) \<noteq> Suc (length xs)" by arith
  with Cons show ?case by auto
qed

lemma parse_dates_Some:
  assumes "parse_dates to_datetime cells = Some dates"
  shows "cells \<noteq> []" "length dates = length cells"
    "map (\<lambda>d. d \<noteq> None) dates = map (\<lambda>c. c \<noteq> None) cells"
proof -
  from assms have ne: "cells \<noteq> []"
    and ok: "list_all (\<lambda>c. case c of None \<Rightarrow> True | Some s \<Rightarrow> to_datetime s \<noteq> None) cells"
    and d: "dates = map (\<lambda>c. case c of None \<Rightarrow> None | Some s \<Rightarrow> to_datetime s) cells"
    by (auto simp: parse_dates_def split: if_splits)
  show "cells \<noteq> []" by (rule ne)
  show "length dates = length cells" by (simp add: d)
  show "map (\<lambda>d. d \<noteq> None) dates = map (\<lambda>c. c \<noteq> None) cells"
    unfolding d using ok by (induction cells) (auto split: option.splits)
qed

lemma with_dates_present:
  fixes df :: "'a audio_row list" and dates :: "'b option list"
  assumes "length dates = length df"
  shows "length (with_dates df dates) = length df"
    "length (filter (\<lambda>r. a_date r \<noteq> None \<and> a_relative_path r \<noteq> None) (with_dates df dates)) =
     length (filter (\<lambda>(r, d). d \<noteq> None \<and> a_relative_path r \<noteq> None) (zip df dates))"
proof -
  show "length (with_dates df dates) = length df"
    using assms by (simp add: with_dates_def)
  let ?f = "\<lambda>(r :: 'a audio_row, d :: 'b option).
            \<lparr>a_date = d, a_relative_path = a_relative_path r,
             a_duration_sec = a_duration_sec r, a_rms_dbfs = a_rms_dbfs r, a_zcr = a_zcr r,
             a_sample_rate = a_sample_rate r, a_file_size_bytes = a_file_size_bytes r\<rparr>"
  have e: "(\<lambda>r. a_date r \<noteq> None \<and> a_relative_path r \<noteq> None) \<circ> ?f =
      (\<lambda>(r, d). d \<noteq> None \<and> a_relative_path r \<noteq> None)"
    by (auto simp: fun_eq_iff)
  have "length (filter (\<lambda>r. a_date r \<noteq> None \<and> a_relative_path r \<noteq> None) (map ?f (zip df dates))) =
      length (filter ((\<lambda>r. a_date r \<noteq> None \<and> a_relative_path r \<noteq> None) \<circ> ?f) (zip df dates))"
    by (simp only: filter_map length_map)
  then show "length (filter (\<lambda>r. a_date r \<noteq> None \<and> a_relative_path r \<noteq> None) (with_dates df dates)) =
     length (filter (\<lambda>(r, d). d \<noteq> None \<and> a_relative_path r \<noteq> None) (zip df dates))"
    unfolding e with_dates_def .
qed

lemma zip_present:
  assumes "map (\<lambda>d. d \<noteq> None) dates = map (\<lambda>r. a_date r \<noteq> None) df"
  shows "length (filter (\<lambda>(r, d). d \<noteq> None \<and> a_relative_path r \<noteq> None) (zip df dates)) =
         length (filter (\<lambda>r. a_date r \<noteq> None \<and> a_relative_path r \<noteq> None) df)"
  using assms
proof (induction df arbitrary: dates)
  case Nil
  then show ?case by simp
next
  case (Cons r df)
  then obtain d ds where dates: "dates = d # ds" by (cases dates) auto
  with Cons.prems have h: "(d \<noteq> None) = (a_date r \<noteq> None)"
    and t: "map (\<lambda>d. d \<noteq> None) ds = map (\<lambda>r. a_date r \<noteq> None) df"
    by simp_all
  from Cons.IH[OF t] h show ?case unfolding dates by auto
qed

text \<open>
  C1.  The sum of the per-date counts is the number of rows that have a date and a value
  in the counted column.  Each aggregator compares it with the number of rows of the
  table: when they agree the daily table is written and its counts sum to the number of
  input rows; when they differ the run ends in \<^verbatim>\<open>AssertionError\<close> and the output file is
  left as it was.  The audio aggregator ends in \<^verbatim>\<open>AttributeError\<close> before it groups, and
  writes nothing, when the date column is not a column of time stamps.
\<close>

theorem daily_aggregators_assert_row_count:
  "(case audio_quality_daily_main to_datetime (Some adf) aout of
      (None, aout') \<Rightarrow>
        (\<exists>daily. aout' = Some daily \<and> sum_list (map n_audio daily) = length adf) \<and>
        parse_dates to_datetime (map a_date adf) \<noteq> None \<and>
        list_all (\<lambda>r. a_date r \<noteq> None \<and> a_relative_path r \<noteq> None) adf
    | (Some e, aout') \<Rightarrow>
        aout' = aout \<and>
        (if parse_dates to_datetime (map a_date adf) = None then e = AttributeError
         else e = AssertionError \<and>
              \<not> list_all (\<lambda>r. a_date r \<noteq> None \<and> a_relative_path r \<noteq> None) adf)) \<and>
   (case image_quality_daily_main (Some idf) iout of
      (None, iout') \<Rightarrow>
        (\<exists>daily. iout' = Some daily \<and> sum_list (map n_images daily) = length idf) \<and>
        list_all (\<lambda>r. i_date r \<noteq> None \<and> i_file_name r \<noteq> None) idf
    | (Some e, iout') \<Rightarrow>
        e = AssertionError \<and> iout' = iout \<and>
        \<not> list_all (\<lambda>r. i_date r \<noteq> None \<and> i_file_name r \<noteq> None) idf)"
proof
  show "case audio_quality_daily_main to_datetime (Some adf) aout of
      (None, aout') \<Rightarrow>
        (\<exists>daily. aout' = Some daily \<and> sum_list (map n_audio daily) = length adf) \<and>
        parse_dates to_datetime (map a_date adf) \<noteq> None \<and>
        list_all (\<lambda>r. a_date r \<noteq> None \<and> a_relative_path r \<noteq> None) adf
    | (Some e, aout') \<Rightarrow>
        aout' = aout \<and>
        (if parse_dates to_datetime (map a_date adf) = None then e = AttributeError
         else e = AssertionError \<and>
              \<not> list_all (\<lambda>r. a_date r \<noteq> None \<and> a_relative_path r \<noteq> None) adf)"
  proof (cases "parse_dates to_datetime (map a_date adf)")
    case None
    then show ?thesis by (simp add: audio_quality_daily_main_def)
  next
    case (Some dates)
    let ?df = "with_dates adf (map (map_option normalize) dates)"
    from parse_dates_Some[OF Some] have len: "length dates = length adf"
      and pres: "map (\<lambda>d. d \<noteq> None) dates = map (\<lambda>r. a_date r \<noteq> None) adf"
      by (simp_all add: o_def)
    have len': "length (map (map_option normalize) dates) = length adf" using len by simp
    have pres': "map (\<lambda>d. d \<noteq> None) (map (map_option normalize) dates) =
        map (\<lambda>r. a_date r \<noteq> None) adf"
      using pres by (simp add: o_def)
    have "length (filter (\<lambda>r. a_date r \<noteq> None \<and> a_relative_path r \<noteq> None) ?df) =
        length (filter (\<lambda>r. a_date r \<noteq> None \<and> a_relative_path r \<noteq> None) adf)"
      unfolding with_dates_present(2)[OF len'] by (rule zip_present[OF pres'])
    then have "sum_list (map n_audio (audio_daily_agg ?df)) = length ?df \<longleftrightarrow>
        list_all (\<lambda>r. a_date r \<noteq> None \<and> a_relative_path r \<noteq> None) adf"
      by (simp add: audio_counts_sum list_all_filter_length with_dates_present(1)[OF len'])
    then show ?thesis
      using Some by (simp add: audio_quality_daily_main_def Let_def with_dates_present(1)[OF len'])
  qed
next
  have "sum_list (map n_images (image_daily_agg idf)) = length idf \<longleftrightarrow>
      list_all (\<lambda>r. i_date r \<noteq> None \<and> i_file_name r \<noteq> None) idf"
    by (simp add: image_counts_sum list_all_filter_length)
  then show "case image_quality_daily_main (Some idf) iout of
      (None, iout') \<Rightarrow>
        (\<exists>daily. iout' = Some daily \<and> sum_list (map n_images daily) = length idf) \<and>
        list_all (\<lambda>r. i_date r \<noteq> None \<and> i_file_name r \<noteq> None) idf
    | (Some e, iout') \<Rightarrow>
        e = AssertionError \<and> iout' = iout \<and>
        \<not> list_all (\<lambda>r. i_date r \<noteq> None \<and> i_file_name r \<noteq> None) idf"
    by (simp add: image_quality_daily_main_def Let_def)
qed

lemma set_groupby:
  "set (groupby key df) = {(k, filter (\<lambda>r. key r = Some k) df) | k. Some k \<in> key ` set df}"
  by (auto simp: groupby_def set_dropna)

lemma filter_key_absent:
  assumes "Some k \<notin> key ` set B"
  shows "filter (\<lambda>r. key r = Some k) B = []"
proof -
  from assms have "\<forall>r\<in>set B. key r \<noteq> Some k" by (metis image_eqI)
  then show ?thesis by (simp add: filter_empty_conv)
qed

lemma groupby_append_disjoint:
  assumes "set (dropna (map key A)) \<inter> set (dropna (map key B)) = {}"
  shows "set (groupby key (A @ B)) = set (groupby key A) \<union> set (groupby key B)"
proof -
  have disj: "\<not> (Some k \<in> key ` set A \<and> Some k \<in> key ` set B)" for k
    using assms by (auto simp: set_dropna)
  have inA: "filter (\<lambda>r. key r = Some k) (A @ B) = filter (\<lambda>r. key r = Some k) A"
    if "Some k \<in> key ` set A" for k
    using that disj[of k] by (simp add: filter_key_absent)
  have inB: "filter (\<lambda>r. key r = Some k) (A @ B) = filter (\<lambda>r. key r = Some k) B"
    if "Some k \<in> key ` set B" for k
    using that disj[of k] by (simp add: filter_key_absent)
  show ?thesis
  proof (intro set_eqI iffI)
    fix x assume "x \<in> set (groupby key (A @ B))"
    then obtain k where x: "x = (k, filter (\<lambda>r. key r = Some k) (A @ B))"
      and k: "Some k \<in> key ` set A \<or> Some k \<in> key ` set B"
      unfolding set_groupby by auto
    from k show "x \<in> set (groupby key A) \<union> set (groupby key B)"
    proof
      assume "Some k \<in> key ` set A"
      then show ?thesis unfolding set_groupby x using inA[of k] by auto
    next
      assume "Some k \<in> key ` set B"
      then show ?thesis unfolding set_groupby x using inB[of k] by auto
    qed
  next
    fix x assume "x \<in> set (groupby key A) \<union> set (groupby key B)"
    then consider k where "x = (k, filter (\<lambda>r. key r = Some k) A)" "Some k \<in> key ` set A"
      | k where "x = (k, filter (\<lambda>r. key r = Some k) B)" "Some k \<in> key ` set B"
      unfolding set_groupby by auto
    then show "x \<in> set (groupby key (A @ B))"
    proof cases
      case 1
      then show ?thesis unfolding set_groupby using inA[of k] by auto
    next
      case 2
      then show ?thesis unfolding set_groupby using inB[of k] by auto
    qed
  qed
qed

lemma audio_daily_agg_sorted:
  "audio_daily_agg df = map audio_agg (groupby a_date df)"
proof -
  have f: "ad_date (audio_agg kg) = fst kg" for kg
    by (cases kg) (simp add: audio_agg_def)
  have "map ad_date (map audio_agg (groupby a_date df)) = map fst (groupby a_date df)"
    by (simp add: o_def f)
  then have "sorted (map ad_date (map audio_agg (groupby a_date df)))"
    by (simp only: groupby_keys)
  then show ?thesis unfolding audio_daily_agg_def by (rule sort_key_id_if_sorted)
qed

lemma audio_daily_agg_dates:
  "map ad_date (audio_daily_agg df) = map fst (groupby a_date df)"
proof -
  have f: "ad_date (audio_agg kg) = fst kg" for kg
    by (cases kg) (simp add: audio_agg_def)
  show ?thesis unfolding audio_daily_agg_sorted by (simp add: o_def f)
qed

text \<open>
  C8.  When no date occurs in both tables, the daily rows of the concatenation are the
  daily rows of the first table together with those of the second, with the same count
  and the same means, and there is one row for each date.
\<close>

theorem audio_daily_agg_disjoint_dates:
  assumes "set (dropna (map a_date A)) \<inter> set (dropna (map a_date B)) = {}"
  shows "set (map count_and_means (audio_daily_agg (A @ B))) =
           set (map count_and_means (audio_daily_agg A)) \<union>
           set (map count_and_means (audio_daily_agg B)) \<and>
         distinct (map ad_date (audio_daily_agg (A @ B)))"
proof -
  have "set (audio_daily_agg (A @ B)) = set (audio_daily_agg A) \<union> set (audio_daily_agg B)"
    unfolding audio_daily_agg_def by (simp add: groupby_append_disjoint[OF assms] image_Un)
  then have "set (map count_and_means (audio_daily_agg (A @ B))) =
           set (map count_and_means (audio_daily_agg A)) \<union>
           set (map count_and_means (audio_daily_agg B))"
    by (simp add: image_Un)
  moreover have "distinct (map ad_date (audio_daily_agg (A @ B)))"
    unfolding audio_daily_agg_dates by (rule groupby_keys)
  ultimately show ?thesis by blast
qed

theorem audio_daily_agg_disjoint_dates_witness:
  "set (dropna (map a_date
      [\<lparr>a_date = Some (0::int), a_relative_path = Some ''a.mp3'', a_duration_sec = Some 2,
        a_rms_dbfs = Some (- 20), a_zcr = None, a_sample_rate = Some 8000,
        a_file_size_bytes = Some 100\<rparr>])) \<inter>
   set (dropna (map a_date
      [\<lparr>a_date = Some (86400000000000::int), a_relative_path = Some ''b.mp3'', a_duration_sec = Some 4,
        a_rms_dbfs = Some (- 30), a_zcr = None, a_sample_rate = Some 8000,
        a_file_size_bytes = Some 300\<rparr>])) = {} \<and>
   set (map count_and_means (audio_daily_agg
     ([\<lparr>a_date = Some (0::int), a_relative_path = Some ''a.mp3'', a_duration_sec = Some 2,
        a_rms_dbfs = Some (- 20), a_zcr = None, a_sample_rate = Some 8000,
        a_file_size_bytes = Some 100\<rparr>] @
      [\<lparr>a_date = Some (86400000000000::int), a_relative_path = Some ''b.mp3'', a_duration_sec = Some 4,
        a_rms_dbfs = Some (- 30), a_zcr = None, a_sample_rate = Some 8000,
        a_file_size_bytes = Some 300\<rparr>]))) =
   {(0, 1, Some (- 20), None, Some 2, Some 100),
    (86400000000000, 1, Some (- 30), None, Some 4, Some 300)}"
proof -
  let ?A = "[\<lparr>a_date = Some (0::int), a_relative_path = Some ''a.mp3'', a_duration_sec = Some 2,
        a_rms_dbfs = Some (- 20), a_zcr = None, a_sample_rate = Some 8000,
        a_file_size_bytes = Some 100\<rparr>]"
  let ?B = "[\<lparr>a_date = Some (86400000000000::int), a_relative_path = Some ''b.mp3'', a_duration_sec = Some 4,
        a_rms_dbfs = Some (- 30), a_zcr = None, a_sample_rate = Some 8000,
        a_file_size_bytes = Some 300\<rparr>]"
  have h: "set (dropna (map a_date ?A)) \<inter> set (dropna (map a_date ?B)) = {}" by simp
  have a: "map count_and_means (audio_daily_agg ?A) = [(0, 1, Some (- 20), None, Some 2, Some 100)]"
    by (simp add: audio_daily_agg_def groupby_def audio_agg_def count_and_means_def count_def mean_def)
  have b: "map count_and_means (audio_daily_agg ?B) = [(86400000000000, 1, Some (- 30), None, Some 4, Some 300)]"
    by (simp add: audio_daily_agg_def groupby_def audio_agg_def count_and_means_def count_def mean_def)
  from audio_daily_agg_disjoint_dates[OF h] have
    "set (map count_and_means (audio_daily_agg (?A @ ?B))) =
       set (map count_and_means (audio_daily_agg ?A)) \<union> set (map count_and_means (audio_daily_agg ?B))"
    by (rule conjunct1)
  then have "set (map count_and_means (audio_daily_agg (?A @ ?B))) =
     {(0, 1, Some (- 20), None, Some 2, Some 100),
      (86400000000000, 1, Some (- 30), None, Some 4, Some 300)}"
    unfolding a b by auto
  with h show ?thesis by (rule_tac conjI)
qed

text \<open>
  The example of the specification: three audio records of one day with RMS values 0.1,
  0.2 and 0.3 give one daily row with count 3 and mean 0.2.
\<close>

lemma audio_daily_agg_example:
  "map (\<lambda>r. (ad_date r, n_audio r, rms_dbfs_mean r)) (audio_daily_agg
     [\<lparr>a_date = Some (0::int), a_relative_path = Some ''a'', a_duration_sec = None,
       a_rms_dbfs = Some (1 / 10), a_zcr = None, a_sample_rate = None, a_file_size_bytes = None\<rparr>,
      \<lparr>a_date = Some (0::int), a_relative_path = Some ''b'', a_duration_sec = None,
       a_rms_dbfs = Some (2 / 10), a_zcr = None, a_sample_rate = None, a_file_size_bytes = None\<rparr>,
      \<lparr>a_date = Some (0::int), a_relative_path = Some ''c'', a_duration_sec = None,
       a_rms_dbfs = Some (3 / 10), a_zcr = None, a_sample_rate = None, a_file_size_bytes = None\<rparr>])
   = [(0, 3, Some (2 / 10))]"
  by (simp add: audio_daily_agg_def groupby_def audio_agg_def count_def mean_def)

text \<open>
  A row without a date is in no group: the assertion fails and nothing is written.  A
  table with no rows has no column of time stamps: the run ends before it groups.
\<close>

lemma audio_quality_daily_main_example:
  "audio_quality_daily_main (\<lambda>s. Some 0) (Some
     [\<lparr>a_date = None, a_relative_path = Some ''a'', a_duration_sec = None,
       a_rms_dbfs = Some (1 / 10), a_zcr = None, a_sample_rate = None, a_file_size_bytes = None\<rparr>]) out
   = (Some AssertionError, out)"
  "audio_quality_daily_main to_datetime (Some []) out = (Some AttributeError, out)"
  "audio_quality_daily_main (\<lambda>s. None) (Some
     [\<lparr>a_date = Some ''junk'', a_relative_path = Some ''a'', a_duration_sec = None,
       a_rms_dbfs = Some (1 / 10), a_zcr = None, a_sample_rate = None, a_file_size_bytes = None\<rparr>]) out
   = (Some AttributeError, out)"
  by (simp_all add: audio_quality_daily_main_def parse_dates_def with_dates_def
      audio_daily_agg_def groupby_def)

section \<open>Properties of the left join\<close>

lemma filter_key_distinct:
  "distinct (map f xs) \<Longrightarrow> filter (\<lambda>x. f x = k) xs = (case find (\<lambda>x. f x = k) xs of None \<Rightarrow> [] | Some x \<Rightarrow> [x])"
proof (induction xs)
  case Nil
  then show ?case by simp
next
  case (Cons x xs)
  show ?case
  proof (cases "f x = k")
    case True
    with Cons.prems have "k \<notin> f ` set xs" by simp
    then have "\<forall>y\<in>set xs. f y \<noteq> k" by (metis image_eqI)
    then have "filter (\<lambda>x. f x = k) xs = []" by (simp add: filter_empty_conv)
    with True show ?thesis by simp
  next
    case False
    with Cons show ?thesis by simp
  qed
qed

lemma merge_left_distinct:
  assumes "distinct (map s_date right)"
  shows "merge_left left right = map (\<lambda>l. (l, find (\<lambda>r. s_date r = q_date l) right)) left"
proof -
  have "(case filter (\<lambda>r. s_date r = k) right of [] \<Rightarrow> [(l, None)] | m # ms \<Rightarrow> map (\<lambda>r. (l, Some r)) (m # ms)) =
        [(l, find (\<lambda>r. s_date r = k) right)]" for l :: quality_row and k
    unfolding filter_key_distinct[OF assms] by (simp split: option.splits)
  then show ?thesis unfolding merge_left_def by (induction left) simp_all
qed

lemma find_None_image: "find (\<lambda>r. f r = k) xs = None \<longleftrightarrow> k \<notin> f ` set xs"
  by (auto simp: find_None_iff)

lemma joined_of_fields:
  "j_date (joined_of (l, ro)) = q_date l"
  "sensor_missing (joined_of (l, ro)) = ((case ro of None \<Rightarrow> None | Some r \<Rightarrow> s_n_events r) = None)"
  by (simp_all add: joined_of_def Let_def)

text \<open>
  C7.  A left join of a primary table with the three distinct dates d1, d2, d3 and a
  secondary table with the distinct dates d1, d3, whose \<^verbatim>\<open>n_events\<close> are not missing,
  succeeds with exactly three rows, one for each row of the primary table in its order,
  and \<^verbatim>\<open>sensor_missing\<close> is true exactly on the row of d2.
\<close>

theorem left_join_sensor_missing:
  assumes "d1 \<noteq> d2" "d1 \<noteq> d3" "d2 \<noteq> d3"
    and "distinct (map q_date aq)" "set (map q_date aq) = {Some d1, Some d2, Some d3}"
    and "distinct (map s_date asens)" "set (map s_date asens) = {Some d1, Some d3}"
    and "list_all (\<lambda>r. s_n_events r \<noteq> None) asens"
  shows "\<exists>joined. join_audio_quality_and_sensor_daily (Some aq) (Some asens) = Inr joined \<and>
           length joined = 3 \<and> map j_date joined = map q_date aq \<and>
           list_all (\<lambda>j. sensor_missing j \<longleftrightarrow> j_date j = Some d2) joined"
proof -
  let ?j = "map joined_of (merge_left aq asens)"
  have na: "filter (\<lambda>r. q_date r = None) aq = []"
    using assms(5) by (auto simp: filter_empty_conv) 
  have ns: "filter (\<lambda>r. s_date r = None) asens = []"
    using assms(7) by (auto simp: filter_empty_conv)
  have run: "join_audio_quality_and_sensor_daily (Some aq) (Some asens) = Inr ?j"
    by (simp add: join_audio_quality_and_sensor_daily_def na ns)
  have ml: "merge_left aq asens = map (\<lambda>l. (l, find (\<lambda>r. s_date r = q_date l) asens)) aq"
    by (rule merge_left_distinct[OF assms(6)])
  have "card (set (map q_date aq)) = 3"
    unfolding assms(5) using assms(1-3) by simp
  then have len: "length aq = 3"
    using distinct_card[OF assms(4)] by simp
  have dates: "map j_date ?j = map q_date aq"
    unfolding ml by (simp add: o_def joined_of_fields)
  have miss: "sensor_missing (joined_of (l, find (\<lambda>r. s_date r = q_date l) asens)) \<longleftrightarrow> q_date l = Some d2"
    if "l \<in> set aq" for l
  proof (cases "find (\<lambda>r. s_date r = q_date l) asens")
    case None
    then have "q_date l \<notin> {Some d1, Some d3}"
      using assms(7) by (simp add: find_None_image)
    moreover from that assms(5) have "q_date l \<in> {Some d1, Some d2, Some d3}" by auto
    ultimately have "q_date l = Some d2" by auto
    with None show ?thesis by (simp add: joined_of_fields)
  next
    case (Some r)
    then have r: "r \<in> set asens" "s_date r = q_date l"
      by (auto simp: find_Some_iff)
    with assms(8) have "s_n_events r \<noteq> None" by (simp add: list_all_iff)
    moreover from r assms(7) have "q_date l \<in> {Some d1, Some d3}" by (metis image_eqI set_map)
    then have "q_date l \<noteq> Some d2" using assms(1,3) by auto
    ultimately show ?thesis using Some by (simp add: joined_of_fields)
  qed
  have flags: "list_all (\<lambda>j. sensor_missing j \<longleftrightarrow> j_date j = Some d2) ?j"
    unfolding ml using miss by (simp add: list_all_iff joined_of_fields)
  have len': "length ?j = 3" unfolding ml using len by simp
  from run len' dates flags show ?thesis by blast
qed

theorem left_join_sensor_missing_witness:
  "(1::int) \<noteq> 2 \<and> (1::int) \<noteq> 3 \<and> (2::int) \<noteq> 3 \<and>
   distinct (map q_date
     [\<lparr>q_date = Some 1, q_n_audio = Some 4, q_other = []\<rparr>,
      \<lparr>q_date = Some 2, q_n_audio = Some 1, q_other = []\<rparr>,
      \<lparr>q_date = Some 3, q_n_audio = Some 7, q_other = []\<rparr>]) \<and>
   distinct (map s_date
     [\<lparr>s_date = Some 1, s_snd_lvl_mean = None, s_dba_mean = Some 60, s_dba_p90 = Some 70,
       s_n_events = Some 12\<rparr>,
      \<lparr>s_date = Some 3, s_snd_lvl_mean = None, s_dba_mean = Some 80, s_dba_p90 = Some 85,
       s_n_events = Some 5\<rparr>]) \<and>
   (\<exists>joined. join_audio_quality_and_sensor_daily
      (Some [\<lparr>q_date = Some 1, q_n_audio = Some 4, q_other = []\<rparr>,
             \<lparr>q_date = Some 2, q_n_audio = Some 1, q_other = []\<rparr>,
             \<lparr>q_date = Some 3, q_n_audio = Some 7, q_other = []\<rparr>])
      (Some [\<lparr>s_date = Some 1, s_snd_lvl_mean = None, s_dba_mean = Some 60, s_dba_p90 = Some 70,
              s_n_events = Some 12\<rparr>,
             \<lparr>s_date = Some 3, s_snd_lvl_mean = None, s_dba_mean = Some 80, s_dba_p90 = Some 85,
              s_n_events = Some 5\<rparr>]) = Inr joined \<and>
      length joined = 3 \<and>
      list_all (\<lambda>j. sensor_missing j \<longleftrightarrow> j_date j = Some 2) joined)"
proof -
  let ?aq = "[\<lparr>q_date = Some 1, q_n_audio = Some 4, q_other = []\<rparr>,
      \<lparr>q_date = Some 2, q_n_audio = Some 1, q_other = []\<rparr>,
      \<lparr>q_date = Some 3, q_n_audio = Some 7, q_other = []\<rparr>]"
  let ?as = "[\<lparr>s_date = Some 1, s_snd_lvl_mean = None, s_dba_mean = Some 60, s_dba_p90 = Some 70,
       s_n_events = Some 12\<rparr>,
      \<lparr>s_date = Some 3, s_snd_lvl_mean = None, s_dba_mean = Some 80, s_dba_p90 = Some 85,
       s_n_events = Some 5\<rparr>]"
  have n: "(1::int) \<noteq> 2" "(1::int) \<noteq> 3" "(2::int) \<noteq> 3" by simp_all
  have dq: "distinct (map q_date ?aq)" by simp
  have sq: "set (map q_date ?aq) = {Some 1, Some 2, Some 3}" by simp
  have ds: "distinct (map s_date ?as)" by simp
  have ss: "set (map s_date ?as) = {Some 1, Some 3}" by simp
  have ne: "list_all (\<lambda>r. s_n_events r \<noteq> None) ?as" by simp
  from left_join_sensor_missing[OF n dq sq ds ss ne] n dq ds show ?thesis by blast
qed

text \<open>The same join, computed: the row of the second date has no sensor data.\<close>

lemma left_join_example:
  "map_sum id (map (\<lambda>j. (j_date j, sensor_missing j, flag_capture_failure_candidate j)))
     (join_audio_quality_and_sensor_daily
      (Some [\<lparr>q_date = Some 1, q_n_audio = Some 4, q_other = []\<rparr>,
             \<lparr>q_date = Some 2, q_n_audio = Some 1, q_other = []\<rparr>,
             \<lparr>q_date = Some 3, q_n_audio = Some 2, q_other = []\<rparr>])
      (Some [\<lparr>s_date = Some 1, s_snd_lvl_mean = None, s_dba_mean = Some 60, s_dba_p90 = Some 70,
              s_n_events = Some 12\<rparr>,
             \<lparr>s_date = Some 3, s_snd_lvl_mean = None, s_dba_mean = Some 80, s_dba_p90 = Some 85,
              s_n_events = Some 5\<rparr>]))
   = Inr [(Some 1, False, False), (Some 2, True, False), (Some 3, False, True)]"
  by (simp add: join_audio_quality_and_sensor_daily_def merge_left_def joined_of_def)

section \<open>Properties of the crest factor\<close>



text \<open>
  Without the guard the division by an RMS of zero would give an infinity; and an RMS
  that is NaN gives NaN.
\<close>

lemma crest_factor_other_cases:
  "np_divide rnd (Finite 1) (Finite 0) = PosInf"
  "rms_op np y = NaN \<Longrightarrow> crest_factor (amplitude_row np fp_name date_str y) = NaN"
  by (simp_all add: np_divide_def amplitude_row_def Let_def np_positive_def)

section \<open>Properties of the log event flattener\<close>

lemma frame_date_time_ok:
  assumes "frame_dto_splits v"
  shows "\<exists>d t. frame_date_time v = Inr (d, t) \<and>
           (d = None \<longleftrightarrow> \<not> (\<exists>s. v = JStr s \<and> CHR '' '' \<in> set s))"
proof (cases "\<exists>s. v = JStr s \<and> CHR '' '' \<in> set s")
  case True
  then obtain s where s: "v = JStr s" "CHR '' '' \<in> set s" by blast
  with assms have "2 \<le> length (py_split s)" by (simp add: frame_dto_splits_def)
  then obtain a b rest where "py_split s = a # b # rest"
    by (cases "py_split s"; cases "tl (py_split s)") auto
  with s show ?thesis by (simp add: frame_date_time_def)
next
  case False
  then show ?thesis by (auto simp: frame_date_time_def split: json.splits)
qed

lemma dto_date_ok:
  assumes "dto_splits fv dv" "d = None \<longleftrightarrow> \<not> (\<exists>s. fv = JStr s \<and> CHR '' '' \<in> set s)"
  shows "\<exists>d'. dto_date d dv = Inr d'"
proof (cases "d = None")
  case False
  then show ?thesis by (auto simp: dto_date_def)
next
  case True
  with assms(2) have nf: "\<not> (\<exists>s. fv = JStr s \<and> CHR '' '' \<in> set s)" by simp
  show ?thesis
  proof (cases "\<exists>t. dv = JStr t \<and> CHR '' '' \<in> set t")
    case True
    then obtain t where t: "dv = JStr t" "CHR '' '' \<in> set t" by blast
    with assms(1) nf have "py_split t \<noteq> []"
      by (auto simp: dto_splits_def split: json.splits if_splits)
    then obtain a rest where "py_split t = a # rest" by (cases "py_split t") auto
    with t \<open>d = None\<close> show ?thesis by (simp add: dto_date_def)
  next
    case False
    with \<open>d = None\<close> show ?thesis by (auto simp: dto_date_def split: json.splits)
  qed
qed

lemma item_or_none_sized:
  assumes "sized v"
  shows "item_or_none (or_empty v) i = Inr (nth_or_null (elements v) i)"
  using assms
  by (cases "or_empty v") (simp_all add: sized_def item_or_none_def elements_def nth_or_null_def)

lemma cross_row_sized:
  assumes "sized v"
  shows "cross_row (or_empty v) i =
           Inr (nth_or_null (row_elements v i) 0, nth_or_null (row_elements v i) 1)"
proof (cases "or_empty v")
  case (JArr xs)
  show ?thesis
  proof (cases "i < length xs")
    case True
    then show ?thesis using JArr
      by (cases "xs ! i") (simp_all add: cross_row_def row_elements_def elements_def nth_or_null_def)
  next
    case False
    then show ?thesis using JArr
      by (simp add: cross_row_def row_elements_def elements_def nth_or_null_def)
  qed
next
  case (JStr s)
  then show ?thesis
    by (simp add: cross_row_def row_elements_def elements_def nth_or_null_def)
qed (use assms in \<open>simp_all add: sized_def\<close>)


text \<open>
  C6, as the code has it.  For every JSON object whose time stamps split into enough
  pieces and whose \<^verbatim>\<open>intersection\<close> and \<^verbatim>\<open>cross\<close> are missing, empty, lists or strings,
  \<open>flatten_log_record\<close> returns a record of the fixed schema; each of the box,
  intersection and cross columns holds the element at its position, and the missing
  value when the source has no element there.
\<close>

theorem flatten_log_record_fields:
  assumes "flattens kv"
  shows "\<exists>r. flatten_log_record (JObj kv) lf = Inr r \<and>
     intersection_0 r = nth_or_null (elements (dict_get kv ''intersection'')) 0 \<and>
     intersection_1 r = nth_or_null (elements (dict_get kv ''intersection'')) 1 \<and>
     cross_0_0 r = nth_or_null (row_elements (dict_get kv ''cross'') 0) 0 \<and>
     cross_0_1 r = nth_or_null (row_elements (dict_get kv ''cross'') 0) 1 \<and>
     cross_1_0 r = nth_or_null (row_elements (dict_get kv ''cross'') 1) 0 \<and>
     cross_1_1 r = nth_or_null (row_elements (dict_get kv ''cross'') 1) 1 \<and>
     box_x1 r = nth_or_null (box_list (dict_get kv ''box'')) 0 \<and>
     box_y1 r = nth_or_null (box_list (dict_get kv ''box'')) 1 \<and>
     box_x2 r = nth_or_null (box_list (dict_get kv ''box'')) 2 \<and>
     box_y2 r = nth_or_null (box_list (dict_get kv ''box'')) 3 \<and>
     probs r = dict_get kv ''probs'' \<and> log_file r = lf"
proof -
  from assms have f: "frame_dto_splits (dict_get kv ''frame_dto'')"
    and d: "dto_splits (dict_get kv ''frame_dto'') (dict_get kv ''dto'')"
    and i: "sized (dict_get kv ''intersection'')" and c: "sized (dict_get kv ''cross'')"
    by (simp_all add: flattens_def)
  from frame_date_time_ok[OF f] obtain d1 t1 where
    s1: "frame_date_time (dict_get kv ''frame_dto'') = Inr (d1, t1)"
    and d1: "d1 = None \<longleftrightarrow> \<not> (\<exists>s. dict_get kv ''frame_dto'' = JStr s \<and> CHR '' '' \<in> set s)"
    by blast
  from dto_date_ok[OF d d1] obtain d2 where s2: "dto_date d1 (dict_get kv ''dto'') = Inr d2"
    by blast
  obtain imgf d3 where s3: "img_fields d2 (dict_get kv ''img'') = (imgf, d3)"
    by (cases "img_fields d2 (dict_get kv ''img'')") auto
  show ?thesis
    by (simp add: flatten_log_record_def Let_def s1 s2 s3 item_or_none_sized[OF i] cross_row_sized[OF c])
qed


theorem flatten_log_record_fields_witness:
  "flattens [(''dto'', JStr ''2024-06-01 10:00:00''), (''probs'', JFloat (9 / 10)),
             (''box'', JArr [JInt 1, JInt 2, JInt 3, JInt 4])] \<and>
   (\<exists>r. flatten_log_record
          (JObj [(''dto'', JStr ''2024-06-01 10:00:00''), (''probs'', JFloat (9 / 10)),
                 (''box'', JArr [JInt 1, JInt 2, JInt 3, JInt 4])]) ''traffic.txt'' = Inr r \<and>
        date r = Some ''2024-06-01'' \<and>
        box_x1 r = JInt 1 \<and> box_y1 r = JInt 2 \<and> box_x2 r = JInt 3 \<and> box_y2 r = JInt 4 \<and>
        probs r = JFloat (9 / 10) \<and>
        intersection_0 r = JNull \<and> intersection_1 r = JNull \<and>
        cross_0_0 r = JNull \<and> cross_0_1 r = JNull \<and> cross_1_0 r = JNull \<and> cross_1_1 r = JNull)"
proof -
  let ?kv = "[(''dto'', JStr ''2024-06-01 10:00:00''), (''probs'', JFloat (9 / 10)),
             (''box'', JArr [JInt 1, JInt 2, JInt 3, JInt 4])]"
  have sp: "py_split ''2024-06-01 10:00:00'' = [''2024-06-01'', ''10:00:00'']"
    by (simp add: py_split_def is_space_def)
  have h: "flattens ?kv"
    by (simp add: flattens_def dict_get_def frame_dto_splits_def dto_splits_def sized_def
        or_empty_def sp)
  from flatten_log_record_fields[OF h, of "''traffic.txt''"] obtain r where
    r: "flatten_log_record (JObj ?kv) ''traffic.txt'' = Inr r"
    and f: "intersection_0 r = nth_or_null (elements (dict_get ?kv ''intersection'')) 0"
      "intersection_1 r = nth_or_null (elements (dict_get ?kv ''intersection'')) 1"
      "cross_0_0 r = nth_or_null (row_elements (dict_get ?kv ''cross'') 0) 0"
      "cross_0_1 r = nth_or_null (row_elements (dict_get ?kv ''cross'') 0) 1"
      "cross_1_0 r = nth_or_null (row_elements (dict_get ?kv ''cross'') 1) 0"
      "cross_1_1 r = nth_or_null (row_elements (dict_get ?kv ''cross'') 1) 1"
      "box_x1 r = nth_or_null (box_list (dict_get ?kv ''box'')) 0"
      "box_y1 r = nth_or_null (box_list (dict_get ?kv ''box'')) 1"
      "box_x2 r = nth_or_null (box_list (dict_get ?kv ''box'')) 2"
      "box_y2 r = nth_or_null (box_list (dict_get ?kv ''box'')) 3"
      "probs r = dict_get ?kv ''probs''"
    by blast
  have d: "date r = Some ''2024-06-01''"
    using r
    by (auto simp: flatten_log_record_def Let_def dict_get_def frame_date_time_def dto_date_def
        img_fields_def sp split: sum.splits prod.splits)
  have v: "intersection_0 r = JNull" "intersection_1 r = JNull"
      "cross_0_0 r = JNull" "cross_0_1 r = JNull" "cross_1_0 r = JNull" "cross_1_1 r = JNull"
      "box_x1 r = JInt 1" "box_y1 r = JInt 2" "box_x2 r = JInt 3" "box_y2 r = JInt 4"
      "probs r = JFloat (9 / 10)"
    unfolding f
    by (simp_all add: dict_get_def nth_or_null_def elements_def row_elements_def box_list_def
        or_empty_def)
  from h r d v show ?thesis by blast
qed

text \<open>
  A time stamp of one space only has no pieces: the index on the empty split raises
  \<^verbatim>\<open>IndexError\<close>, and no record is returned.
\<close>

theorem flatten_log_record_index_error:
  "flatten_log_record (JObj [(''dto'', JStr '' '')]) ''traffic.txt'' = Inl IndexError"
  by (simp add: flatten_log_record_def dict_get_def frame_date_time_def dto_date_def
      py_split_def is_space_def)

lemma flatten_log_record_other_errors:
  "flatten_log_record (JObj [(''frame_dto'', JStr ''2024-06-01 '')]) ''traffic.txt'' = Inl ValueError"
  "flatten_log_record (JObj [(''intersection'', JInt 5)]) ''traffic.txt'' = Inl TypeError"
  "flatten_log_record (JObj [(''cross'', JObj [(''a'', JInt 1)])]) ''traffic.txt'' = Inl KeyError"
  by (simp_all add: flatten_log_record_def dict_get_def frame_date_time_def dto_date_def
      py_split_def is_space_def img_fields_def item_or_none_def or_empty_def cross_row_def)

text \<open>On every other JSON object an exception is raised, so the condition is exact.\<close>

lemma flatten_fails:
  assumes "\<not> flattens kv"
  shows "\<exists>e. flatten_log_record (JObj kv) lf = Inl e"
proof -
  let ?f = "dict_get kv ''frame_dto''" and ?d = "dict_get kv ''dto''"
  show ?thesis
  proof (cases "frame_dto_splits ?f")
    case False
    then obtain s where s: "?f = JStr s" "CHR '' '' \<in> set s" "\<not> 2 \<le> length (py_split s)"
      by (auto simp: frame_dto_splits_def split: json.splits if_splits)
    then have "take 2 (py_split s) = py_split s" by simp
    with s have "frame_date_time ?f = Inl ValueError"
      by (cases "py_split s"; cases "tl (py_split s)") (auto simp: frame_date_time_def)
    then show ?thesis by (simp add: flatten_log_record_def)
  next
    case True
    from frame_date_time_ok[OF True] obtain d1 t1 where
      s1: "frame_date_time ?f = Inr (d1, t1)"
      and d1: "d1 = None \<longleftrightarrow> \<not> (\<exists>s. ?f = JStr s \<and> CHR '' '' \<in> set s)"
      by blast
    show ?thesis
    proof (cases "dto_splits ?f ?d")
      case False
      then have nf: "\<not> (\<exists>s. ?f = JStr s \<and> CHR '' '' \<in> set s)"
        by (auto simp: dto_splits_def split: json.splits if_splits)
      with False obtain t where "?d = JStr t" "CHR '' '' \<in> set t" "py_split t = []"
        by (auto simp: dto_splits_def split: json.splits if_splits)
      with nf d1 have "dto_date d1 ?d = Inl IndexError" by (simp add: dto_date_def)
      then show ?thesis by (simp add: flatten_log_record_def s1)
    next
      case dt: True
      from dto_date_ok[OF dt d1] obtain d2 where s2: "dto_date d1 ?d = Inr d2" by blast
      obtain imgf d3 where s3: "img_fields d2 (dict_get kv ''img'') = (imgf, d3)"
        by (cases "img_fields d2 (dict_get kv ''img'')") auto
      show ?thesis
      proof (cases "sized (dict_get kv ''intersection'')")
        case False
        then have "\<exists>e. item_or_none (or_empty (dict_get kv ''intersection'')) 0 = Inl e"
          by (cases "or_empty (dict_get kv ''intersection'')")
             (auto simp: sized_def item_or_none_def or_empty_def split: if_splits)
        then show ?thesis by (auto simp: flatten_log_record_def s1 s2 s3)
      next
        case i: True
        with assms True dt have c: "\<not> sized (dict_get kv ''cross'')" by (simp add: flattens_def)
        then have "\<exists>e. cross_row (or_empty (dict_get kv ''cross'')) 0 = Inl e"
          by (cases "or_empty (dict_get kv ''cross'')")
             (auto simp: sized_def cross_row_def or_empty_def split: if_splits)
        then show ?thesis
          by (auto simp: flatten_log_record_def s1 s2 s3 item_or_none_sized[OF i])
      qed
    qed
  qed
qed


section \<open>Properties of the log parser's line cap\<close>

lemma total_lines_process_line:
  "total_lines (process_line json_loads lf line st) = Suc (total_lines st)"
  by (simp add: process_line_def Let_def split: sum.splits)

lemma read_lines_append:
  "read_lines json_loads (xs @ ys) st = read_lines json_loads ys (read_lines json_loads xs st)"
  by (simp add: read_lines_def)

lemma read_lines_Cons:
  "read_lines json_loads ((lf, line) # xs) st = read_lines json_loads xs (process_line json_loads lf line st)"
  by (simp add: read_lines_def)

lemma read_lines_Nil: "read_lines json_loads [] st = st"
  by (simp add: read_lines_def)

lemma total_lines_read_lines:
  "total_lines (read_lines json_loads ls st) = total_lines st + length ls"
proof (induction ls arbitrary: st)
  case Nil
  then show ?case by (simp add: read_lines_Nil)
next
  case (Cons a ls)
  then show ?case by (cases a) (simp add: read_lines_Cons total_lines_process_line)
qed

lemma parse_lines_uncapped:
  assumes "max_lines = None \<or> max_lines = Some 0"
  shows "parse_lines json_loads max_lines lf fin st = (False, read_lines json_loads (map (Pair lf) fin) st)"
proof -
  have nc: "\<not> cap_reached max_lines s" for s using assms by (auto simp: cap_reached_def)
  show ?thesis
    by (induction fin arbitrary: st) (simp_all add: nc read_lines_Nil read_lines_Cons)
qed

lemma parse_files_uncapped:
  assumes "max_lines = None \<or> max_lines = Some 0"
  shows "parse_files json_loads max_lines log_files st =
     (False, read_lines json_loads (concat (map (\<lambda>(lf, fin). map (Pair lf) fin) log_files)) st)"
  by (induction log_files arbitrary: st)
     (auto simp: parse_lines_uncapped[OF assms] read_lines_Nil read_lines_append)

lemma parse_lines_capped:
  assumes "0 < N"
  shows "snd (parse_lines json_loads (Some (int N)) lf fin st) =
           read_lines json_loads (take (N - total_lines st) (map (Pair lf) fin)) st \<and>
         (fst (parse_lines json_loads (Some (int N)) lf fin st) \<longrightarrow>
            N \<le> total_lines (snd (parse_lines json_loads (Some (int N)) lf fin st)))"
proof (induction fin arbitrary: st)
  case Nil
  then show ?case by (simp add: read_lines_Nil)
next
  case (Cons line fin)
  show ?case
  proof (cases "cap_reached (Some (int N)) st")
    case True
    then have "N \<le> total_lines st" by (simp add: cap_reached_def)
    with True show ?thesis by (simp add: read_lines_Nil)
  next
    case False
    then have lt: "total_lines st < N" using assms by (simp add: cap_reached_def)
    then have k: "N - total_lines st = Suc (N - Suc (total_lines st))" by arith
    have step: "parse_lines json_loads (Some (int N)) lf (line # fin) st =
        parse_lines json_loads (Some (int N)) lf fin (process_line json_loads lf line st)"
      using False by simp
    let ?st1 = "process_line json_loads lf line st"
    from Cons.IH[of ?st1]
    have ih1: "snd (parse_lines json_loads (Some (int N)) lf fin ?st1) =
        read_lines json_loads (take (N - Suc (total_lines st)) (map (Pair lf) fin)) ?st1"
      and ih2: "fst (parse_lines json_loads (Some (int N)) lf fin ?st1) \<longrightarrow>
        N \<le> total_lines (snd (parse_lines json_loads (Some (int N)) lf fin ?st1))"
      unfolding total_lines_process_line by blast+
    have e: "read_lines json_loads (take (Suc (N - Suc (total_lines st))) (map (Pair lf) (line # fin))) st =
        read_lines json_loads (take (N - Suc (total_lines st)) (map (Pair lf) fin)) ?st1"
      by (simp add: read_lines_Cons)
    show ?thesis
      unfolding step k e using ih1 ih2 by blast
  qed
qed

lemma parse_files_capped:
  assumes "0 < N"
  shows "snd (parse_files json_loads (Some (int N)) log_files st) =
           read_lines json_loads
             (take (N - total_lines st) (concat (map (\<lambda>(lf, fin). map (Pair lf) fin) log_files))) st"
proof (induction log_files arbitrary: st)
  case Nil
  then show ?case by (simp add: read_lines_Nil)
next
  case (Cons a log_files)
  obtain lf fin where a: "a = (lf, fin)" by (cases a)
  let ?k = "N - total_lines st"
  let ?A = "map (Pair lf) fin"
  let ?B = "concat (map (\<lambda>(lf, fin). map (Pair lf) fin) log_files)"
  obtain ret st' where p: "parse_lines json_loads (Some (int N)) lf fin st = (ret, st')"
    by (cases "parse_lines json_loads (Some (int N)) lf fin st")
  from parse_lines_capped[OF assms, of json_loads lf fin st]
  have "snd (ret, st') = read_lines json_loads (take ?k ?A) st \<and>
      (fst (ret, st') \<longrightarrow> N \<le> total_lines (snd (ret, st')))"
    unfolding p .
  then have st': "st' = read_lines json_loads (take ?k ?A) st" and r: "ret \<longrightarrow> N \<le> total_lines st'"
    unfolding fst_conv snd_conv by blast+
  have tl: "total_lines st' = total_lines st + min ?k (length fin)"
    unfolding st' by (simp add: total_lines_read_lines min_def)
  have split: "take ?k (?A @ ?B) = take ?k ?A @ take (N - total_lines st') ?B"
    unfolding tl by (simp add: min_def)
  have cc: "concat (map (\<lambda>(lf, fin). map (Pair lf) fin) (a # log_files)) = ?A @ ?B"
    by (simp add: a)
  show ?case
  proof (cases ret)
    case True
    with r have "N - total_lines st' = 0" by simp
    then have t: "take ?k (?A @ ?B) = take ?k ?A" unfolding split by simp
    from True p have "snd (parse_files json_loads (Some (int N)) (a # log_files) st) = st'"
      by (simp add: a)
    also have "\<dots> = read_lines json_loads (take ?k ?A) st" by (rule st')
    also have "\<dots> = read_lines json_loads (take ?k (?A @ ?B)) st" unfolding t ..
    finally show ?thesis unfolding cc .
  next
    case False
    with p have "snd (parse_files json_loads (Some (int N)) (a # log_files) st) =
        snd (parse_files json_loads (Some (int N)) log_files st')" by (simp add: a)
    also have "\<dots> = read_lines json_loads (take (N - total_lines st') ?B) st'"
      by (rule Cons.IH)
    also have "\<dots> = read_lines json_loads (take ?k (?A @ ?B)) st"
      unfolding split read_lines_append st' ..
    finally show ?thesis unfolding cc .
  qed
qed

text \<open>
  C10.  With \<^verbatim>\<open>--max-lines 0\<close> every line of every log file is read: the state at the end
  is the state after reading all the lines.  With a positive \<^verbatim>\<open>--max-lines N\<close> the state
  at the end is the state after reading the first N lines, and the number of lines read
  is N or, when the files have fewer, all of them.
\<close>

theorem max_lines_cap:
  assumes "files \<noteq> []" and "0 < N"
  shows "parse_logs_main json_loads (Some 0) files output =
           (None, Some (rows (read_lines json_loads (log_lines files)
                               \<lparr>total_lines = 0, parsed = 0, errors = 0, rows = []\<rparr>)),
            read_lines json_loads (log_lines files)
              \<lparr>total_lines = 0, parsed = 0, errors = 0, rows = []\<rparr>) \<and>
         total_lines (read_lines json_loads (log_lines files)
              \<lparr>total_lines = 0, parsed = 0, errors = 0, rows = []\<rparr>) = length (log_lines files) \<and>
         parse_logs_main json_loads (Some (int N)) files output =
           (None, Some (rows (read_lines json_loads (take N (log_lines files))
                               \<lparr>total_lines = 0, parsed = 0, errors = 0, rows = []\<rparr>)),
            read_lines json_loads (take N (log_lines files))
              \<lparr>total_lines = 0, parsed = 0, errors = 0, rows = []\<rparr>) \<and>
         total_lines (read_lines json_loads (take N (log_lines files))
              \<lparr>total_lines = 0, parsed = 0, errors = 0, rows = []\<rparr>) = min N (length (log_lines files))"
proof -
  let ?start = "\<lparr>total_lines = 0, parsed = 0, errors = 0, rows = []\<rparr>"
  from assms(1) have ne: "sort_key fst files \<noteq> []"
    by (metis length_sort length_0_conv)
  have u: "parse_files json_loads (Some 0) (sort_key fst files) ?start =
      (False, read_lines json_loads (log_lines files) ?start)"
    unfolding log_lines_def by (rule parse_files_uncapped) simp
  have c: "snd (parse_files json_loads (Some (int N)) (sort_key fst files) ?start) =
      read_lines json_loads (take N (log_lines files)) ?start"
    using parse_files_capped[OF assms(2), of json_loads "sort_key fst files" ?start]
    by (simp add: log_lines_def)
  have m0: "parse_logs_main json_loads (Some 0) files output =
      (None, Some (rows (read_lines json_loads (log_lines files) ?start)),
       read_lines json_loads (log_lines files) ?start)"
    using ne u by (simp add: parse_logs_main_def Let_def)
  have mN: "parse_logs_main json_loads (Some (int N)) files output =
      (None, Some (rows (read_lines json_loads (take N (log_lines files)) ?start)),
       read_lines json_loads (take N (log_lines files)) ?start)"
  proof -
    obtain ret st where q: "parse_files json_loads (Some (int N)) (sort_key fst files) ?start = (ret, st)"
      by (cases "parse_files json_loads (Some (int N)) (sort_key fst files) ?start")
    with c have "st = read_lines json_loads (take N (log_lines files)) ?start" by simp
    with q ne show ?thesis by (simp add: parse_logs_main_def Let_def)
  qed
  show ?thesis
    using m0 mN by (simp add: total_lines_read_lines min_def)
qed

theorem max_lines_cap_witness:
  "[(''traffic.txt'', [''a'', ''b''])] \<noteq> [] \<and> (0::nat) < 1 \<and>
   total_lines (snd (snd (parse_logs_main (\<lambda>s. Inl JSONDecodeError) (Some 0)
       [(''traffic.txt'', [''a'', ''b''])] None))) = 2 \<and>
   total_lines (snd (snd (parse_logs_main (\<lambda>s. Inl JSONDecodeError) (Some (int 1))
       [(''traffic.txt'', [''a'', ''b''])] None))) = 1"
proof -
  let ?F = "[(''traffic.txt'', [''a'', ''b''])]"
  have h1: "?F \<noteq> []" by simp
  have h2: "(0::nat) < 1" by simp
  have l: "length (log_lines ?F) = 2" by (simp add: log_lines_def)
  from max_lines_cap[OF h1 h2, of "\<lambda>s. Inl JSONDecodeError" None] l h1 h2
  show ?thesis by simp
qed

section \<open>Missing inputs and empty results\<close>

text \<open>
  C3, as the code has it.  When their input file, folder or calendar does not exist, the
  daily aggregators, \<open>load_csv\<close>, the join, the amplitude scan and the audio quality
  extraction end in \<^verbatim>\<open>FileNotFoundError\<close> and leave the output as it was, and the log
  parser, finding no log file, exits with status 1.  The folder scanner catches the
  error: for a root that does not exist it returns two empty lists.
\<close>

theorem missing_input_behaviour:
  "audio_quality_daily_main to_datetime None aout = (Some FileNotFoundError, aout) \<and>
   image_quality_daily_main None iout = (Some FileNotFoundError, iout) \<and>
   load_csv to_date None = Inl FileNotFoundError \<and>
   join_audio_quality_and_sensor_daily None sensor = Inl FileNotFoundError \<and>
   join_audio_quality_and_sensor_daily (Some aq) None = Inl FileNotFoundError \<and>
   audio_amplitude_scan_sampled_main np sample to_datetime None mout = (Some FileNotFoundError, mout) \<and>
   audio_quality_main extract to_datetime strftime (Some None) paths qout = (Some FileNotFoundError, qout) \<and>
   parse_logs_main json_loads max_lines [] lout =
     (Some (SystemExit 1), lout, \<lparr>total_lines = 0, parsed = 0, errors = 0, rows = []\<rparr>) \<and>
   list_candidate_folders None = Inr [] \<and>
   scan_modality_root None modality = Inr ([], [])"
  by (simp add: audio_quality_daily_main_def image_quality_daily_main_def load_csv_def
      join_audio_quality_and_sensor_daily_def audio_amplitude_scan_sampled_main_def
      audio_quality_main_def parse_logs_main_def list_candidate_folders_def listdir_def
      scan_modality_root_def)

text \<open>The scanner on a root that does not exist: no error, two empty lists.\<close>

theorem scan_missing_root_no_error:
  "scan_modality_root None ''image'' = Inr ([], [])"
  by (simp add: list_candidate_folders_def listdir_def scan_modality_root_def)




text \<open>A calendar with no rows has no column of time stamps: the run ends before it scans.\<close>

lemma audio_quality_empty_calendar:
  "audio_quality_main extract to_datetime strftime (Some (Some [])) paths output =
     (Some AttributeError, output)"
  by (simp add: audio_quality_main_def parse_dates_def)


end
